theory Spec2Isabelle
  imports Complex_Main "HOL-Library.AList" "HOL-Library.Char_ord" "HOL-Library.List_Lexorder"
begin

section \<open>Data model (modules/discovery/types.ts, lib/analyzers/types.ts)\<close>

text \<open>
  JavaScript numbers that the code only compares, adds or prints are modelled exactly:
  node levels, counts and timestamps as \<open>nat\<close>; confidences, popularity and the numeric
  fields of a request body as \<open>rat\<close>. An open \<open>Record<string, any>\<close> is an association
  list in insertion order; an optional field is an \<open>option\<close>. Timestamps
  (\<open>new Date().toISOString()\<close>) are passed in by the caller.
\<close>

datatype job_status = Starting | Discovering | Complete | Error | Cancelled

datatype node_type = Niche | SubNiche | Topic

datatype relationship = Contains | RelatedTo | DerivedFrom

datatype json_value = JString string | JNumber rat | JBool bool | JUndefined

type_synonym data_map = "(string \<times> json_value) list"

record discovery_config =
  niche :: string
  maxLevels :: rat
  maxNodesPerLevel :: rat
  sources :: "string list"

record discovery_node =
  dn_id :: string
  dn_label :: string
  dn_level :: nat
  dn_type :: node_type
  dn_source :: string
  dn_confidence :: rat
  dn_popularity :: rat
  dn_data :: "data_map option"
  dn_metadata :: data_map

record discovery_edge =
  de_id :: string
  de_source :: string
  de_target :: string
  de_relationship :: relationship

record discovery_graph =
  g_nodes :: "discovery_node list"
  g_edges :: "discovery_edge list"

record sub_analysis =
  totalItems :: nat
  completedItems :: nat
  currentItem :: "string option"
  currentStep :: "string option"
  currentItemProgress :: "nat option"
  estimatedTimeRemaining :: "nat option"

record discovery_job =
  j_id :: string
  j_config :: discovery_config
  j_status :: job_status
  currentLevel :: rat
  totalNodes :: nat
  totalEdges :: nat
  createdAt :: nat
  updatedAt :: nat
  j_error :: "string option"
  subAnalysis :: "sub_analysis option"

section \<open>JobStore: InMemoryDiscoveryRepo\<close>

record repo =
  jobs :: "string \<rightharpoonup> discovery_job"
  jobGraphs :: "string \<rightharpoonup> discovery_graph"

definition empty_repo :: repo where
  "empty_repo = \<lparr>jobs = Map.empty, jobGraphs = Map.empty\<rparr>"

text \<open>\<open>createJob\<close>: the id drawn by \<open>crypto.randomUUID()\<close> and the clock reading are inputs.\<close>

definition createJob :: "discovery_config \<Rightarrow> string \<Rightarrow> nat \<Rightarrow> repo \<Rightarrow> discovery_job \<times> repo" where
  "createJob config uuid now r =
     (let job = \<lparr>j_id = uuid, j_config = config, j_status = Starting, currentLevel = 0,
                 totalNodes = 0, totalEdges = 0, createdAt = now, updatedAt = now,
                 j_error = None, subAnalysis = None\<rparr>
      in (job, r\<lparr>jobs := (jobs r)(uuid \<mapsto> job),
                  jobGraphs := (jobGraphs r)(uuid \<mapsto> \<lparr>g_nodes = [], g_edges = []\<rparr>)\<rparr>))"

definition getJob :: "string \<Rightarrow> repo \<Rightarrow> discovery_job option" where
  "getJob jobId r = jobs r jobId"

text \<open>\<open>if (error)\<close>: an absent or empty message is falsy and leaves the field alone.\<close>

definition updateJobStatus :: "string \<Rightarrow> job_status \<Rightarrow> string option \<Rightarrow> nat \<Rightarrow> repo \<Rightarrow> repo" where
  "updateJobStatus jobId st err now r =
     (case jobs r jobId of
        None \<Rightarrow> r
      | Some job \<Rightarrow>
          r\<lparr>jobs := (jobs r)(jobId \<mapsto>
               job\<lparr>j_status := st, updatedAt := now,
                    j_error := (case err of
                                  None \<Rightarrow> j_error job
                                | Some m \<Rightarrow> if m = [] then j_error job else Some m)\<rparr>)\<rparr>)"

definition updateJobCurrentLevel :: "string \<Rightarrow> rat \<Rightarrow> nat \<Rightarrow> repo \<Rightarrow> repo" where
  "updateJobCurrentLevel jobId lvl now r =
     (case jobs r jobId of
        None \<Rightarrow> r
      | Some job \<Rightarrow> r\<lparr>jobs := (jobs r)(jobId \<mapsto> job\<lparr>currentLevel := lvl, updatedAt := now\<rparr>)\<rparr>)"

definition updateJobSubAnalysis :: "string \<Rightarrow> sub_analysis \<Rightarrow> nat \<Rightarrow> repo \<Rightarrow> repo" where
  "updateJobSubAnalysis jobId sa now r =
     (case jobs r jobId of
        None \<Rightarrow> r
      | Some job \<Rightarrow> r\<lparr>jobs := (jobs r)(jobId \<mapsto> job\<lparr>subAnalysis := Some sa, updatedAt := now\<rparr>)\<rparr>)"

definition addNode :: "string \<Rightarrow> discovery_node \<Rightarrow> nat \<Rightarrow> repo \<Rightarrow> repo" where
  "addNode jobId node now r =
     (case jobGraphs r jobId of
        None \<Rightarrow> r
      | Some graph \<Rightarrow>
          (let graph' = graph\<lparr>g_nodes := g_nodes graph @ [node]\<rparr>;
               r' = r\<lparr>jobGraphs := (jobGraphs r)(jobId \<mapsto> graph')\<rparr>
           in case jobs r' jobId of
                None \<Rightarrow> r'
              | Some job \<Rightarrow>
                  r'\<lparr>jobs := (jobs r')(jobId \<mapsto>
                        job\<lparr>totalNodes := length (g_nodes graph'), updatedAt := now\<rparr>)\<rparr>))"

definition addEdge :: "string \<Rightarrow> discovery_edge \<Rightarrow> nat \<Rightarrow> repo \<Rightarrow> repo" where
  "addEdge jobId edge now r =
     (case jobGraphs r jobId of
        None \<Rightarrow> r
      | Some graph \<Rightarrow>
          (let graph' = graph\<lparr>g_edges := g_edges graph @ [edge]\<rparr>;
               r' = r\<lparr>jobGraphs := (jobGraphs r)(jobId \<mapsto> graph')\<rparr>
           in case jobs r' jobId of
                None \<Rightarrow> r'
              | Some job \<Rightarrow>
                  r'\<lparr>jobs := (jobs r')(jobId \<mapsto>
                        job\<lparr>totalEdges := length (g_edges graph'), updatedAt := now\<rparr>)\<rparr>))"

definition getJobGraph :: "string \<Rightarrow> repo \<Rightarrow> discovery_graph" where
  "getJobGraph jobId r =
     (case jobGraphs r jobId of None \<Rightarrow> \<lparr>g_nodes = [], g_edges = []\<rparr> | Some g \<Rightarrow> g)"

text \<open>Any sequence of JobStore calls, starting from the store as constructed.\<close>

datatype repo_op =
    CreateJob discovery_config string nat
  | UpdateJobStatus string job_status "string option" nat
  | UpdateJobCurrentLevel string rat nat
  | UpdateJobSubAnalysis string sub_analysis nat
  | AddNode string discovery_node nat
  | AddEdge string discovery_edge nat

fun apply_repo_op :: "repo \<Rightarrow> repo_op \<Rightarrow> repo" where
  "apply_repo_op r (CreateJob c u t) = snd (createJob c u t r)"
| "apply_repo_op r (UpdateJobStatus j s e t) = updateJobStatus j s e t r"
| "apply_repo_op r (UpdateJobCurrentLevel j l t) = updateJobCurrentLevel j l t r"
| "apply_repo_op r (UpdateJobSubAnalysis j sa t) = updateJobSubAnalysis j sa t r"
| "apply_repo_op r (AddNode j n t) = addNode j n t r"
| "apply_repo_op r (AddEdge j e t) = addEdge j e t r"

definition run_repo_ops :: "repo_op list \<Rightarrow> repo" where
  "run_repo_ops ops = foldl apply_repo_op empty_repo ops"

definition stats_consistent :: "repo \<Rightarrow> bool" where
  "stats_consistent r \<longleftrightarrow>
     (\<forall>jobId job. jobs r jobId = Some job \<longrightarrow>
        jobGraphs r jobId \<noteq> None \<and>
        totalNodes job = length (g_nodes (getJobGraph jobId r)) \<and>
        totalEdges job = length (g_edges (getJobGraph jobId r))) \<and>
     (\<forall>jobId. jobGraphs r jobId \<noteq> None \<longrightarrow> jobs r jobId \<noteq> None)"

section \<open>Strings as the code builds them\<close>

text \<open>
  \<open>toLowerCase\<close> and \<open>trim\<close> are given for ASCII strings, which is what the labels and ids
  of the sample inputs are: \<open>toLowerCase\<close> maps \<open>A..Z\<close> to \<open>a..z\<close> and \<open>trim\<close> strips the
  ASCII white space of ECMAScript from both ends. What is proved for every label goes
  through \<open>nodeKeyWith\<close> below, which takes the two functions of the runtime as a
  parameter. A number inside a template literal prints in decimal.
\<close>

definition lower_char :: "char \<Rightarrow> char" where
  "lower_char c =
     (case map_of (zip ''ABCDEFGHIJKLMNOPQRSTUVWXYZ'' ''abcdefghijklmnopqrstuvwxyz'') c of
        None \<Rightarrow> c
      | Some d \<Rightarrow> d)"

definition toLowerCase :: "string \<Rightarrow> string" where
  "toLowerCase s = map lower_char s"

definition is_space :: "char \<Rightarrow> bool" where
  "is_space c \<longleftrightarrow> c \<in> set [CHR '' '', CHR 0x09, CHR 0x0A, CHR 0x0B, CHR 0x0C, CHR 0x0D]"

definition trim :: "string \<Rightarrow> string" where
  "trim s = rev (dropWhile is_space (rev (dropWhile is_space s)))"

definition digit_char :: "nat \<Rightarrow> char" where
  "digit_char d = ''0123456789'' ! d"

function show_nat :: "nat \<Rightarrow> string" where
  "show_nat n = (if n < 10 then [digit_char n] else show_nat (n div 10) @ [digit_char (n mod 10)])"
  by pat_completeness auto
termination
  by (relation "measure id") auto

declare show_nat.simps [simp del]

section \<open>AnalyzerRegistry.combineResults (lib/analyzers/registry.ts)\<close>

record analyzer_node =
  n_id :: string
  n_label :: string
  n_level :: nat
  n_type :: node_type
  n_source :: string
  n_data :: "data_map option"
  n_confidence :: rat
  n_popularity :: rat

record analyzer_edge =
  e_id :: string
  e_source :: string
  e_target :: string
  e_relationship :: relationship
  e_confidence :: rat
  e_source_platform :: string

record analyzer_metadata =
  m_platform :: string
  m_startTime :: nat
  m_endTime :: nat
  m_processingTime :: nat
  m_apiCalls :: nat
  m_errors :: "string list"
  m_platformMetadata :: "data_map option"

record analyzer_result =
  r_nodes :: "analyzer_node list"
  r_edges :: "analyzer_edge list"
  r_metadata :: analyzer_metadata

record combined_metadata =
  totalProcessingTime :: nat
  totalApiCalls :: nat
  platformsUsed :: "string list"
  cm_startTime :: nat
  cm_endTime :: nat

record combined_result =
  c_nodes :: "analyzer_node list"
  c_edges :: "analyzer_edge list"
  analyzerMetadata :: "analyzer_metadata list"
  combinedMetadata :: combined_metadata

text \<open>
  A JavaScript \<open>Map\<close> is an association list in insertion order: \<open>set\<close> on a present key
  replaces the value where it stands, on a new key appends. An object spread
  \<open>{...a, ...b}\<close> copies \<open>a\<close> and then assigns the properties of \<open>b\<close> in order.
\<close>

definition map_set :: "'k \<Rightarrow> 'v \<Rightarrow> ('k \<times> 'v) list \<Rightarrow> ('k \<times> 'v) list" where
  "map_set k v m = AList.update k v m"

definition spread :: "data_map \<Rightarrow> data_map \<Rightarrow> data_map" where
  "spread a b = fold (\<lambda>(k, v) acc. AList.update k v acc) b a"

definition show_relationship :: "relationship \<Rightarrow> string" where
  "show_relationship r =
     (case r of Contains \<Rightarrow> ''contains'' | RelatedTo \<Rightarrow> ''related-to''
              | DerivedFrom \<Rightarrow> ''derived-from'')"

definition nodeKey :: "analyzer_node \<Rightarrow> string" where
  "nodeKey node = trim (toLowerCase (n_label node)) @ ''-'' @ show_nat (n_level node)"

definition edgeKey :: "analyzer_edge \<Rightarrow> string" where
  "edgeKey edge =
     e_source edge @ ''-'' @ e_target edge @ ''-'' @ show_relationship (e_relationship edge)"

text \<open>
  The \<open>else\<close> branch of the node loop: what happens to the stored node on a collision. The
  popularities are added exactly; the code adds doubles, which gives the same sum as long as
  the popularities are integers and the sum stays below \<open>2^53\<close>.
\<close>

definition mergeNode :: "analyzer_node \<Rightarrow> analyzer_node \<Rightarrow> analyzer_node" where
  "mergeNode existing node =
     (let e1 = (if n_confidence node > n_confidence existing
                then existing\<lparr>n_confidence := n_confidence node, n_source := n_source node\<rparr>
                else existing);
          e2 = e1\<lparr>n_popularity := n_popularity e1 + n_popularity node\<rparr>
      in case (n_data node, n_data e2) of
           (Some nd, Some ed) \<Rightarrow> e2\<lparr>n_data := Some (spread ed nd)\<rparr>
         | _ \<Rightarrow> e2)"

definition dedupNodeStep ::
  "(string \<times> analyzer_node) list \<Rightarrow> analyzer_node \<Rightarrow> (string \<times> analyzer_node) list" where
  "dedupNodeStep nodeMap node =
     (let key = nodeKey node
      in case map_of nodeMap key of
           None \<Rightarrow> map_set key node nodeMap
         | Some existing \<Rightarrow> map_set key (mergeNode existing node) nodeMap)"

definition dedupNodes :: "analyzer_node list \<Rightarrow> analyzer_node list" where
  "dedupNodes allNodes = map snd (foldl dedupNodeStep [] allNodes)"

definition dedupEdgeStep ::
  "(string \<times> analyzer_edge) list \<Rightarrow> analyzer_edge \<Rightarrow> (string \<times> analyzer_edge) list" where
  "dedupEdgeStep edgeMap edge =
     (let key = edgeKey edge
      in case map_of edgeMap key of
           None \<Rightarrow> map_set key edge edgeMap
         | Some existing \<Rightarrow>
             if e_confidence edge > e_confidence existing then map_set key edge edgeMap
             else edgeMap)"

definition dedupEdges :: "analyzer_edge list \<Rightarrow> analyzer_edge list" where
  "dedupEdges allEdges = map snd (foldl dedupEdgeStep [] allEdges)"

definition newNodeId :: "analyzer_node \<Rightarrow> nat \<Rightarrow> string" where
  "newNodeId node index = ''node-'' @ show_nat (n_level node) @ ''-'' @ show_nat index"

text \<open>\<open>nodeIdMap\<close>: old id of every surviving node to its new id, later entries winning.\<close>

definition buildNodeIdMap :: "analyzer_node list \<Rightarrow> (string \<times> string) list" where
  "buildNodeIdMap deduplicatedNodes =
     foldl (\<lambda>m (index, node). map_set (n_id node) (newNodeId node index) m) []
       (enumerate 0 deduplicatedNodes)"

definition renumberNodes :: "analyzer_node list \<Rightarrow> analyzer_node list" where
  "renumberNodes deduplicatedNodes =
     map (\<lambda>(index, node). node\<lparr>n_id := newNodeId node index\<rparr>) (enumerate 0 deduplicatedNodes)"

text \<open>\<open>nodeIdMap.get(x) || x\<close>: every new id is a non-empty string, hence truthy.\<close>

definition remapId :: "(string \<times> string) list \<Rightarrow> string \<Rightarrow> string" where
  "remapId nodeIdMap x = (case map_of nodeIdMap x of None \<Rightarrow> x | Some y \<Rightarrow> y)"

definition remapEdges :: "(string \<times> string) list \<Rightarrow> analyzer_edge list \<Rightarrow> analyzer_edge list" where
  "remapEdges nodeIdMap es =
     map (\<lambda>(index, edge). edge\<lparr>e_id := ''edge-'' @ show_nat index,
                                 e_source := remapId nodeIdMap (e_source edge),
                                 e_target := remapId nodeIdMap (e_target edge)\<rparr>)
       (enumerate 0 es)"

definition combineResults :: "analyzer_result list \<Rightarrow> nat \<Rightarrow> nat \<Rightarrow> combined_result" where
  "combineResults results startTime endTime =
     (let allNodes = concat (map r_nodes results);
          allEdges = concat (map r_edges results);
          deduplicatedNodes = dedupNodes allNodes;
          nodeIdMap = buildNodeIdMap deduplicatedNodes
      in \<lparr>c_nodes = renumberNodes deduplicatedNodes,
          c_edges = remapEdges nodeIdMap (dedupEdges allEdges),
          analyzerMetadata = map r_metadata results,
          combinedMetadata =
            \<lparr>totalProcessingTime = sum_list (map (m_processingTime \<circ> r_metadata) results),
             totalApiCalls = sum_list (map (m_apiCalls \<circ> r_metadata) results),
             platformsUsed = map (m_platform \<circ> r_metadata) results,
             cm_startTime = startTime,
             cm_endTime = endTime\<rparr>\<rparr>)"

subsection \<open>The node loop for every label\<close>

text \<open>
  \<open>toLowerCase\<close> and \<open>trim\<close> above are the functions of the runtime on ASCII labels. On a
  label with other characters \<open>String.prototype.toLowerCase\<close> also folds the letters outside
  \<open>A..Z\<close> and \<open>String.prototype.trim\<close> also strips the white space outside ASCII. The
  definitions below are the same node loop and the same \<open>combineResults\<close> with the
  composition \<open>label.toLowerCase().trim()\<close> of the runtime passed in as \<open>lowerTrim\<close>, so that what
  is proved of them for every \<open>lowerTrim\<close> holds for every label.
\<close>

definition nodeKeyWith :: "(string \<Rightarrow> string) \<Rightarrow> analyzer_node \<Rightarrow> string" where
  "nodeKeyWith lowerTrim node = lowerTrim (n_label node) @ ''-'' @ show_nat (n_level node)"




section \<open>DiscoveryServiceImpl: job registry and cancellation (discovery.service.ts)\<close>

text \<open>
  A thrown \<open>Error\<close> is a value carrying its \<open>name\<close> and \<open>message\<close>. The service holds the
  repository, the set \<open>cancelledJobs\<close> and the keys of \<open>activeJobs\<close> (the stored
  \<open>AbortController\<close> objects are never read).
\<close>

datatype exn = Exn (exn_name: string) (exn_message: string)

record service =
  discoveryRepo :: repo
  cancelledJobs :: "string set"
  activeJobs :: "string set"

definition new_service :: service where
  "new_service = \<lparr>discoveryRepo = empty_repo, cancelledJobs = {}, activeJobs = {}\<rparr>"

record start_response =
  sr_jobId :: string
  sr_status :: string
  sr_message :: string

record cancel_response =
  success :: bool
  cr_message :: string

text \<open>
  \<open>startDiscovery\<close> up to its \<open>return\<close>: the job is created and its controller
  registered. The promise chain it launches is \<open>backgroundTask\<close> below.
  \<open>simulateDiscovery\<close>, which no route calls, is left out.
\<close>

definition startDiscovery ::
  "discovery_config \<Rightarrow> string \<Rightarrow> nat \<Rightarrow> service \<Rightarrow> start_response \<times> service" where
  "startDiscovery config uuid now s =
     (let (job, r) = createJob config uuid now (discoveryRepo s)
      in (\<lparr>sr_jobId = j_id job, sr_status = ''starting'',
           sr_message = ''Discovery job started successfully''\<rparr>,
          s\<lparr>discoveryRepo := r, activeJobs := insert (j_id job) (activeJobs s)\<rparr>))"

definition getJobStatus :: "string \<Rightarrow> service \<Rightarrow> discovery_job option" where
  "getJobStatus jobId s = getJob jobId (discoveryRepo s)"

definition cancelJob :: "string \<Rightarrow> nat \<Rightarrow> service \<Rightarrow> cancel_response \<times> service" where
  "cancelJob jobId now s =
     (if jobId \<notin> activeJobs s
      then (\<lparr>success = False, cr_message = ''Job not found or already completed''\<rparr>, s)
      else (\<lparr>success = True, cr_message = ''Job cancelled successfully''\<rparr>,
            s\<lparr>cancelledJobs := insert jobId (cancelledJobs s),
              discoveryRepo := updateJobStatus jobId Cancelled
                                 (Some ''Job was cancelled by user'') now (discoveryRepo s)\<rparr>))"

section \<open>Run-time world of a background task\<close>

text \<open>
  Node.js runs a task without interruption until it awaits real I/O (an HTTP fetch or a
  call to the language-model service); awaits on the in-memory repository resume before
  any other request is served. The world of a running task is the service, the number of
  I/O waits so far (also the clock) and, for an observer, the service state seen during
  each wait. A schedule lists the job ids for which a cancel request (DELETE) arrives
  during the \<open>k\<close>-th wait.
\<close>

record world =
  svc :: service
  ticks :: nat
  history :: "service list"

type_synonym schedule = "nat \<Rightarrow> string list"

definition io_wait :: "schedule \<Rightarrow> world \<Rightarrow> world" where
  "io_wait sched w =
     (let s = foldl (\<lambda>s jobId. snd (cancelJob jobId (ticks w) s)) (svc w) (sched (ticks w))
      in \<lparr>svc = s, ticks = Suc (ticks w), history = history w @ [s]\<rparr>)"

definition on_repo :: "(nat \<Rightarrow> repo \<Rightarrow> repo) \<Rightarrow> world \<Rightarrow> world" where
  "on_repo f w = w\<lparr>svc := (svc w)\<lparr>discoveryRepo := f (ticks w) (discoveryRepo (svc w))\<rparr>\<rparr>"

text \<open>
  An \<open>AnalyzerProgress\<close> report: the level and the optional sub-analysis snapshot. Its
  status text, percentage and running counts reach only \<open>console.log\<close> and are left out.
\<close>

record progress =
  p_currentLevel :: rat
  p_subAnalysis :: "sub_analysis option"

type_synonym callback = "progress \<Rightarrow> world \<Rightarrow> exn + world"

definition progressCallback :: "string \<Rightarrow> callback" where
  "progressCallback jobId p w =
     (if jobId \<in> cancelledJobs (svc w)
      then Inl (Exn ''AbortError'' ''Discovery job was cancelled'')
      else
        (let w1 = on_repo (updateJobCurrentLevel jobId (p_currentLevel p)) w
         in case p_subAnalysis p of
              None \<Rightarrow> Inr w1
            | Some sa \<Rightarrow> Inr (on_repo (updateJobSubAnalysis jobId sa) w1)))"

section \<open>RedditAnalyzer.analyze (lib/analyzers/platforms/reddit.analyzer.ts)\<close>

text \<open>
  What Reddit and the language model answer is outside the program: \<open>reddit_env\<close> holds
  those answers, each indexed by the I/O wait in which it is given, together with the
  confidence scores the analyzer derives from \<open>Math.random\<close> and logarithms. The control
  flow around them (progress reports, \<open>try\<close>/\<open>catch\<close>, loops, node and edge construction) is
  the analyzer's.
\<close>

record analyzer_config =
  ac_maxLevels :: rat
  ac_maxNodesPerLevel :: rat

record subreddit_info =
  sr_name :: string
  display_name :: string
  subscribers :: nat
  description :: string
  public_description :: string

record sub_niche =
  sn_label :: string
  sn_reasoning :: string

record llm_scores =
  baseConfidence :: rat
  subscriberFactor :: rat
  enhancedConfidence :: rat

record topic =
  t_label :: string
  t_confidence :: rat
  t_popularity :: "rat option"
  t_reasoning :: string
  t_data :: "data_map option"

record reddit_env =
  searchReddit :: "nat \<Rightarrow> exn + string list"
  extractSubreddits :: "nat \<Rightarrow> string list \<Rightarrow> subreddit_info list"
  extractSubNichesFromSubreddit :: "nat \<Rightarrow> subreddit_info \<Rightarrow> exn + sub_niche list"
  extractTopicsFromSubredditWithLLM :: "nat \<Rightarrow> string \<Rightarrow> string \<Rightarrow> exn + topic list"
  llmScores :: "subreddit_info \<Rightarrow> sub_niche \<Rightarrow> llm_scores"
  fallbackConfidence :: "subreddit_info \<Rightarrow> rat"
  failureConfidence :: "subreddit_info \<Rightarrow> rat"

definition platform :: string where
  "platform = ''reddit''"

definition report :: "rat \<Rightarrow> sub_analysis option \<Rightarrow> progress" where
  "report lvl sa = \<lparr>p_currentLevel = lvl, p_subAnalysis = sa\<rparr>"

definition snapshot :: "nat \<Rightarrow> nat \<Rightarrow> string \<Rightarrow> string \<Rightarrow> nat \<Rightarrow> sub_analysis" where
  "snapshot items completed item step itemProgress =
     \<lparr>totalItems = items, completedItems = completed, currentItem = Some item,
      currentStep = Some step, currentItemProgress = Some itemProgress,
      estimatedTimeRemaining = None\<rparr>"

definition nicheSpecificity :: "string \<Rightarrow> nat" where
  "nicheSpecificity nic = Suc (length (filter (\<lambda>c. c = CHR '' '') nic))"

definition rootNode :: "string \<Rightarrow> analyzer_node" where
  "rootNode nic =
     \<lparr>n_id = ''root'', n_label = nic, n_level = 0, n_type = Niche, n_source = platform,
      n_data = Some [(''specificity_score'', JNumber (of_nat (nicheSpecificity nic))),
                     (''reasoning'', JString (''Root niche confidence based on specificity (''
                          @ show_nat (nicheSpecificity nic) @ '' words)''))],
      n_confidence = min (95 / 100) (7 / 10 + of_nat (nicheSpecificity nic) * (5 / 100)),
      n_popularity = 0\<rparr>"

definition levelType :: "nat \<Rightarrow> node_type" where
  "levelType level = (if level = 1 then SubNiche else Topic)"

definition subredditData :: "subreddit_info \<Rightarrow> data_map" where
  "subredditData sr =
     [(''description'', JString (description sr)),
      (''public_description'', JString (public_description sr)),
      (''subscribers'', JNumber (of_nat (subscribers sr))),
      (''subreddit_url'', JString (''https://www.reddit.com/r/'' @ sr_name sr))]"

text \<open>The node pushed when the language model returned a best sub-niche.\<close>

definition llmNode :: "reddit_env \<Rightarrow> nat \<Rightarrow> nat \<Rightarrow> subreddit_info \<Rightarrow> sub_niche \<Rightarrow> analyzer_node" where
  "llmNode env level index sr best =
     \<lparr>n_id = ''node-'' @ show_nat level @ ''-'' @ show_nat index,
      n_label = sn_label best, n_level = level, n_type = levelType level, n_source = platform,
      n_data = Some (subredditData sr @
                 [(''llm_reasoning'', JString (sn_reasoning best)),
                  (''original_subreddit'', JString (display_name sr)),
                  (''llm_confidence'', JNumber (baseConfidence (llmScores env sr best))),
                  (''enhanced_confidence'', JNumber (enhancedConfidence (llmScores env sr best))),
                  (''subscriber_factor'', JNumber (subscriberFactor (llmScores env sr best)))]),
      n_confidence = enhancedConfidence (llmScores env sr best),
      n_popularity = of_nat (subscribers sr)\<rparr>"

text \<open>The node pushed under the subreddit's own name, with the given confidence.\<close>

definition namedNode :: "nat \<Rightarrow> nat \<Rightarrow> subreddit_info \<Rightarrow> rat \<Rightarrow> analyzer_node" where
  "namedNode level index sr conf =
     \<lparr>n_id = ''node-'' @ show_nat level @ ''-'' @ show_nat index,
      n_label = display_name sr, n_level = level, n_type = levelType level, n_source = platform,
      n_data = Some (subredditData sr), n_confidence = conf,
      n_popularity = of_nat (subscribers sr)\<rparr>"

text \<open>
  \<open>createNodesFromSubredditsWithLLM\<close>: the first report of an iteration is outside the
  \<open>try\<close>, the model call and the second report are inside it, and the \<open>catch\<close> pushes the
  node named after the subreddit.
\<close>

fun createNodesFromSubredditsWithLLM ::
  "reddit_env \<Rightarrow> schedule \<Rightarrow> callback \<Rightarrow> nat \<Rightarrow> nat \<Rightarrow> (nat \<times> subreddit_info) list \<Rightarrow>
   analyzer_node list \<Rightarrow> world \<Rightarrow> (exn + analyzer_node list) \<times> world" where
  "createNodesFromSubredditsWithLLM env sched cb level totalSubreddits [] nodes w = (Inr nodes, w)"
| "createNodesFromSubredditsWithLLM env sched cb level totalSubreddits ((index, sr) # rest) nodes w =
     (case cb (report (of_nat level)
                 (Some (snapshot totalSubreddits index (''r/'' @ display_name sr) ''llm_analysis'' 0))) w of
        Inl e \<Rightarrow> (Inl e, w)
      | Inr w1 \<Rightarrow>
          (let w2 = io_wait sched w1;
               failed = nodes @ [namedNode level index sr (failureConfidence env sr)]
           in case extractSubNichesFromSubreddit env (ticks w1) sr of
                Inl e \<Rightarrow> createNodesFromSubredditsWithLLM env sched cb level totalSubreddits rest failed w2
              | Inr subNiches \<Rightarrow>
                  (case cb (report (of_nat level)
                              (Some (snapshot totalSubreddits index (''r/'' @ display_name sr)
                                       ''processing'' 75))) w2 of
                     Inl e \<Rightarrow>
                       createNodesFromSubredditsWithLLM env sched cb level totalSubreddits rest failed w2
                   | Inr w3 \<Rightarrow>
                       (case subNiches of
                          best # _ \<Rightarrow>
                            createNodesFromSubredditsWithLLM env sched cb level totalSubreddits rest
                              (nodes @ [llmNode env level index sr best]) w3
                        | [] \<Rightarrow>
                            createNodesFromSubredditsWithLLM env sched cb level totalSubreddits rest
                              (nodes @ [namedNode level index sr (fallbackConfidence env sr)])
                              w3))))"

text \<open>\<open>parentNode.data?.original_subreddit || parentNode.label\<close>.\<close>

definition subredditNameOf :: "analyzer_node \<Rightarrow> string" where
  "subredditNameOf parentNode =
     (case n_data parentNode of
        None \<Rightarrow> n_label parentNode
      | Some d \<Rightarrow>
          (case map_of d ''original_subreddit'' of
             Some (JString s) \<Rightarrow> if s = [] then n_label parentNode else s
           | _ \<Rightarrow> n_label parentNode))"

definition topicNode :: "nat \<Rightarrow> analyzer_node \<Rightarrow> string \<Rightarrow> nat \<Rightarrow> topic \<Rightarrow> analyzer_node" where
  "topicNode level parentNode subredditName index tp =
     \<lparr>n_id = ''node-'' @ show_nat level @ ''-'' @ n_id parentNode @ ''-'' @ show_nat index,
      n_label = t_label tp, n_level = level, n_type = Topic, n_source = platform,
      n_data = Some (spread (case t_data tp of None \<Rightarrow> [] | Some d \<Rightarrow> d)
                       [(''reasoning'', JString (t_reasoning tp)),
                        (''original_subreddit'', JString subredditName),
                        (''parent_subniche'', JString (n_label parentNode))]),
      n_confidence = t_confidence tp,
      n_popularity = (case t_popularity tp of None \<Rightarrow> 0 | Some p \<Rightarrow> p)\<rparr>"

definition topicEdge :: "analyzer_node \<Rightarrow> analyzer_node \<Rightarrow> analyzer_edge" where
  "topicEdge parentNode node =
     \<lparr>e_id = ''edge-'' @ n_id parentNode @ ''-'' @ n_id node, e_source = n_id parentNode,
      e_target = n_id node, e_relationship = Contains, e_confidence = 7 / 10,
      e_source_platform = platform\<rparr>"

record level_acc =
  levelNodes :: "analyzer_node list"
  levelEdges :: "analyzer_edge list"
  apiCalls :: nat

text \<open>
  The loop over the parents of one level. The whole body of an iteration, the progress
  report included, sits in a \<open>try\<close> whose \<open>catch\<close> only logs: whatever is thrown there, the
  loop goes on with the next parent.
\<close>

fun expandParents ::
  "reddit_env \<Rightarrow> schedule \<Rightarrow> callback \<Rightarrow> nat \<Rightarrow> nat \<Rightarrow> (nat \<times> analyzer_node) list \<Rightarrow>
   level_acc \<Rightarrow> world \<Rightarrow> level_acc \<times> world" where
  "expandParents env sched cb level maxParentsPerLevel [] acc w = (acc, w)"
| "expandParents env sched cb level maxParentsPerLevel ((parentIndex, parentNode) # rest) acc w =
     (let subredditName = subredditNameOf parentNode
      in case cb (report (of_nat level)
                    (Some (snapshot maxParentsPerLevel parentIndex (n_label parentNode)
                             ''llm_analysis'' 25))) w of
           Inl e \<Rightarrow> expandParents env sched cb level maxParentsPerLevel rest acc w
         | Inr w1 \<Rightarrow>
             (let w2 = io_wait sched w1
              in case extractTopicsFromSubredditWithLLM env (ticks w1) subredditName
                        (n_label parentNode) of
                   Inl e \<Rightarrow> expandParents env sched cb level maxParentsPerLevel rest acc w2
                 | Inr topics \<Rightarrow>
                     (let acc1 = acc\<lparr>apiCalls := Suc (apiCalls acc)\<rparr>
                      in if topics = []
                         then expandParents env sched cb level maxParentsPerLevel rest acc1 w2
                         else
                           (let topicNodes =
                                  map (\<lambda>(index, tp).
                                         topicNode level parentNode subredditName index tp)
                                    (enumerate 0 (take 3 topics));
                                topicEdges = map (topicEdge parentNode) topicNodes
                            in expandParents env sched cb level maxParentsPerLevel rest
                                 (acc1\<lparr>levelNodes := levelNodes acc1 @ topicNodes,
                                        levelEdges := levelEdges acc1 @ topicEdges\<rparr>) w2))))"

record discovered =
  allNodes :: "analyzer_node list"
  allEdges :: "analyzer_edge list"
  calls :: nat

text \<open>
  \<open>for (let level = 2; level <= config.maxLevels; level++)\<close> with its \<open>break\<close>. The reports
  at the start and at the end of a level are outside the per-parent \<open>try\<close>.
\<close>

function expandLevels ::
  "reddit_env \<Rightarrow> schedule \<Rightarrow> callback \<Rightarrow> analyzer_config \<Rightarrow> nat \<Rightarrow> discovered \<Rightarrow> world \<Rightarrow>
   (exn + discovered) \<times> world" where
  "expandLevels env sched cb config level d w =
     (if \<not> of_nat level \<le> ac_maxLevels config then (Inr d, w)
      else
        (let parentNodes = filter (\<lambda>n. n_level n = level - 1) (allNodes d);
             maxParentsPerLevel = length parentNodes
         in case cb (report (of_nat level)
                       (Some (snapshot maxParentsPerLevel 0 ''Preparing level analysis''
                                ''fetching'' 0))) w of
              Inl e \<Rightarrow> (Inl e, w)
            | Inr w1 \<Rightarrow>
                (let (acc, w2) =
                       expandParents env sched cb level maxParentsPerLevel
                         (enumerate 0 (take maxParentsPerLevel parentNodes))
                         \<lparr>levelNodes = [], levelEdges = [], apiCalls = calls d\<rparr> w1;
                     d1 = \<lparr>allNodes = allNodes d @ levelNodes acc,
                           allEdges = allEdges d @ levelEdges acc, calls = apiCalls acc\<rparr>
                 in case cb (report (of_nat level) None) w2 of
                      Inl e \<Rightarrow> (Inl e, w2)
                    | Inr w3 \<Rightarrow>
                        if levelNodes acc = [] then (Inr d1, w3)
                        else expandLevels env sched cb config (Suc level) d1 w3)))"
  by pat_completeness auto
termination
proof (relation "measure (\<lambda>(env, sched, cb, config, level, d, w).
                   nat \<lfloor>ac_maxLevels config\<rfloor> + 1 - level)", goal_cases)
  case 1
  show ?case by simp
next
  case (2 env sched cb config level d w)
  then have "int level \<le> \<lfloor>ac_maxLevels config\<rfloor>"
    by (simp add: le_floor_iff)
  then have "level \<le> nat \<lfloor>ac_maxLevels config\<rfloor>"
    by linarith
  then show ?case by simp
qed

declare expandLevels.simps [simp del]

definition rootEdge :: "string \<Rightarrow> analyzer_node \<Rightarrow> analyzer_edge" where
  "rootEdge nic node =
     \<lparr>e_id = ''edge-root-'' @ n_id node, e_source = n_id (rootNode nic), e_target = n_id node,
      e_relationship = Contains, e_confidence = 8 / 10, e_source_platform = platform\<rparr>"

text \<open>
  The body of the outer \<open>try\<close> of \<open>analyze\<close>. \<open>authenticate\<close> returns at once. Fetching the
  search results is one I/O wait and collecting the subreddit descriptions another.
\<close>

definition analyzeBody ::
  "reddit_env \<Rightarrow> schedule \<Rightarrow> string \<Rightarrow> analyzer_config \<Rightarrow> callback \<Rightarrow> world \<Rightarrow>
   (exn + analyzer_result) \<times> world" where
  "analyzeBody env sched nic config cb w =
     (case cb (report 0 None) w of
        Inl e \<Rightarrow> (Inl e, w)
      | Inr w1 \<Rightarrow>
     (case cb (report 0 (Some (snapshot 1 0 ([CHR 0x22] @ nic @ [CHR 0x22]) ''fetching'' 10)))
             w1 of
        Inl e \<Rightarrow> (Inl e, w1)
      | Inr w2 \<Rightarrow>
     (let w3 = io_wait sched w2
      in case searchReddit env (ticks w2) of
        Inl e \<Rightarrow> (Inl e, w3)
      | Inr searchResults \<Rightarrow>
     (let w4 = io_wait sched w3;
          subreddits = extractSubreddits env (ticks w3) searchResults;
          totalSubreddits = length subreddits
      in case cb (report 1 (Some (snapshot totalSubreddits 0 ''Preparing subreddit analysis''
                                    ''processing'' 0))) w4 of
        Inl e \<Rightarrow> (Inl e, w4)
      | Inr w5 \<Rightarrow>
     (case createNodesFromSubredditsWithLLM env sched cb 1 totalSubreddits
             (enumerate 0 subreddits) [] w5 of
        (Inl e, w6) \<Rightarrow> (Inl e, w6)
      | (Inr level1Nodes, w6) \<Rightarrow>
     (case cb (report 1 None) w6 of
        Inl e \<Rightarrow> (Inl e, w6)
      | Inr w7 \<Rightarrow>
     (case expandLevels env sched cb config 2
             \<lparr>allNodes = rootNode nic # level1Nodes,
              allEdges = map (rootEdge nic) level1Nodes, calls = 1\<rparr> w7 of
        (Inl e, w8) \<Rightarrow> (Inl e, w8)
      | (Inr d, w8) \<Rightarrow>
     (case cb (report (ac_maxLevels config) None) w8 of
        Inl e \<Rightarrow> (Inl e, w8)
      | Inr w9 \<Rightarrow>
          (Inr \<lparr>r_nodes = allNodes d, r_edges = allEdges d,
                r_metadata =
                  \<lparr>m_platform = platform, m_startTime = ticks w, m_endTime = ticks w9,
                   m_processingTime = ticks w9 - ticks w, m_apiCalls = calls d, m_errors = [],
                   m_platformMetadata =
                     Some [(''searchResults'', JNumber (of_nat (length searchResults))),
                           (''subredditsAnalyzed'', JNumber (of_nat (length subreddits)))]\<rparr>\<rparr>,
           w9)))))))))"

text \<open>
  \<open>analyze\<close>: the outer \<open>catch\<close> reports once more and rethrows; when that report throws,
  its error is the one that leaves.
\<close>

definition analyze ::
  "reddit_env \<Rightarrow> schedule \<Rightarrow> string \<Rightarrow> analyzer_config \<Rightarrow> callback \<Rightarrow> world \<Rightarrow>
   (exn + analyzer_result) \<times> world" where
  "analyze env sched nic config cb w =
     (case analyzeBody env sched nic config cb w of
        (Inl e, w1) \<Rightarrow>
          (case cb (report 0 None) w1 of
             Inl e' \<Rightarrow> (Inl e', w1)
           | Inr w2 \<Rightarrow> (Inl e, w2))
      | (Inr res, w1) \<Rightarrow> (Inr res, w1))"

section \<open>AnalyzerRegistry.analyzeWithMultiplePlatforms\<close>

text \<open>
  An analyzer takes the niche, the configuration and the progress callback and runs in the
  world. The registry maps platform names to analyzers. The analyzers of one call run one
  after the other in the order of the request; with the single analyzer this service
  registers, asked once, that is the only order there is. When a request names a platform
  more than once, \<open>Promise.all\<close> lets the analyses overlap; one after the other is then the
  run in which the answers to each analysis arrive before those to the next.
\<close>

type_synonym analyzer =
  "string \<Rightarrow> analyzer_config \<Rightarrow> callback \<Rightarrow> world \<Rightarrow> (exn + analyzer_result) \<times> world"

type_synonym registry = "(string \<times> analyzer) list"

definition register :: "string \<Rightarrow> analyzer \<Rightarrow> registry \<Rightarrow> registry" where
  "register name a reg = map_set name a reg"

definition getAnalyzer :: "registry \<Rightarrow> string \<Rightarrow> analyzer option" where
  "getAnalyzer reg name = map_of reg name"

fun join :: "string \<Rightarrow> string list \<Rightarrow> string" where
  "join sep [] = []"
| "join sep [x] = x"
| "join sep (x # y # ys) = x @ sep @ join sep (y # ys)"

fun runAnalyzers ::
  "(string \<times> analyzer) list \<Rightarrow> string \<Rightarrow> analyzer_config \<Rightarrow> callback \<Rightarrow> world \<Rightarrow>
   analyzer_result list \<times> string list \<times> world" where
  "runAnalyzers [] nic config cb w = ([], [], w)"
| "runAnalyzers ((name, a) # rest) nic config cb w =
     (case a nic config cb w of
        (Inl e, w1) \<Rightarrow>
          (let (results, errors, w2) = runAnalyzers rest nic config cb w1
           in (results, (''Error in '' @ name @ '' analyzer: '' @ exn_message e) # errors, w2))
      | (Inr res, w1) \<Rightarrow>
          (let (results, errors, w2) = runAnalyzers rest nic config cb w1
           in (res # results, errors, w2)))"

definition analyzeWithMultiplePlatforms ::
  "registry \<Rightarrow> string \<Rightarrow> string list \<Rightarrow> analyzer_config \<Rightarrow> callback \<Rightarrow> world \<Rightarrow>
   (exn + combined_result) \<times> world" where
  "analyzeWithMultiplePlatforms reg nic platforms config cb w =
     (let analyzers = concat (map (\<lambda>p. case getAnalyzer reg p of
                                           None \<Rightarrow> []
                                         | Some a \<Rightarrow> [(p, a)]) platforms)
      in if analyzers = []
         then (Inl (Exn ''Error'' (''No analyzers found for platforms: '' @ join '', '' platforms)),
               w)
         else
           (let (analyzerResults, errors, w1) = runAnalyzers analyzers nic config cb w
            in if analyzerResults = []
               then (Inl (Exn ''Error'' (''All analyzers failed. Errors: '' @ join ''; '' errors)),
                     w1)
               else (Inr (combineResults analyzerResults (ticks w) (ticks w1)), w1)))"

section \<open>DiscoveryServiceImpl: the background task\<close>

definition toDiscoveryNode :: "analyzer_node \<Rightarrow> discovery_node" where
  "toDiscoveryNode n =
     \<lparr>dn_id = n_id n, dn_label = n_label n, dn_level = n_level n, dn_type = n_type n,
      dn_source = n_source n, dn_confidence = n_confidence n, dn_popularity = n_popularity n,
      dn_data = n_data n, dn_metadata = []\<rparr>"

definition toDiscoveryEdge :: "analyzer_edge \<Rightarrow> discovery_edge" where
  "toDiscoveryEdge e =
     \<lparr>de_id = e_id e, de_source = e_source e, de_target = e_target e,
      de_relationship = e_relationship e\<rparr>"

definition storeAnalyzerResults :: "string \<Rightarrow> combined_result \<Rightarrow> world \<Rightarrow> world" where
  "storeAnalyzerResults jobId result w =
     (let w1 = foldl (\<lambda>w n. on_repo (addNode jobId (toDiscoveryNode n)) w) w (c_nodes result)
      in foldl (\<lambda>w e. on_repo (addEdge jobId (toDiscoveryEdge e)) w) w1 (c_edges result))"

definition runDiscoveryWithAnalyzers ::
  "registry \<Rightarrow> string \<Rightarrow> discovery_config \<Rightarrow> world \<Rightarrow> (exn + unit) \<times> world" where
  "runDiscoveryWithAnalyzers reg jobId config w =
     (case analyzeWithMultiplePlatforms reg (niche config) (sources config)
             \<lparr>ac_maxLevels = maxLevels config, ac_maxNodesPerLevel = maxNodesPerLevel config\<rparr>
             (progressCallback jobId) w of
        (Inl e, w1) \<Rightarrow> (Inl e, w1)
      | (Inr result, w1) \<Rightarrow> (Inr (), storeAnalyzerResults jobId result w1))"

definition runRealDiscovery :: "registry \<Rightarrow> string \<Rightarrow> world \<Rightarrow> (exn + unit) \<times> world" where
  "runRealDiscovery reg jobId w =
     (case getJob jobId (discoveryRepo (svc w)) of
        None \<Rightarrow> (Inl (Exn ''Error'' ''Job not found''), w)
      | Some job \<Rightarrow>
          (let w1 = on_repo (updateJobStatus jobId Discovering None) w
           in case runDiscoveryWithAnalyzers reg jobId (j_config job) w1 of
                (Inl e, w2) \<Rightarrow>
                  (Inl e, on_repo (updateJobStatus jobId Error (Some (exn_message e))) w2)
              | (Inr u, w2) \<Rightarrow> (Inr (), on_repo (updateJobStatus jobId Complete None) w2)))"

text \<open>
  The promise chain launched by \<open>startDiscovery\<close>: \<open>runRealDiscovery\<close>, the \<open>catch\<close> handler
  that tells an \<open>AbortError\<close> from any other failure, and the \<open>finally\<close> clean-up.
\<close>

definition backgroundTask :: "registry \<Rightarrow> string \<Rightarrow> world \<Rightarrow> world" where
  "backgroundTask reg jobId w =
     (let (res, w1) = runRealDiscovery reg jobId w;
          w2 = (case res of
                  Inl e \<Rightarrow>
                    if exn_name e = ''AbortError''
                    then on_repo (updateJobStatus jobId Cancelled
                                    (Some ''Job was cancelled by user'')) w1
                    else on_repo (updateJobStatus jobId Error (Some (exn_message e))) w1
                | Inr u \<Rightarrow> w1)
      in w2\<lparr>svc := (svc w2)\<lparr>activeJobs := activeJobs (svc w2) - {jobId},
                              cancelledJobs := cancelledJobs (svc w2) - {jobId}\<rparr>\<rparr>)"

text \<open>The registry as \<open>initializeAnalyzers\<close> leaves it: the Reddit analyzer alone.\<close>

definition analyzerRegistry :: "reddit_env \<Rightarrow> schedule \<Rightarrow> registry" where
  "analyzerRegistry env sched = register platform (analyze env sched) []"

text \<open>A whole job: the start request at the current tick, then its task to the end.\<close>

definition discover ::
  "registry \<Rightarrow> discovery_config \<Rightarrow> string \<Rightarrow> world \<Rightarrow> start_response \<times> world" where
  "discover reg config uuid w =
     (let (resp, s) = startDiscovery config uuid (ticks w) (svc w)
      in (resp, backgroundTask reg (sr_jobId resp) (w\<lparr>svc := s\<rparr>)))"

definition new_world :: world where
  "new_world = \<lparr>svc = new_service, ticks = 0, history = []\<rparr>"

section \<open>POST /api/discover (modules/discovery/routes.ts, discovery.validators.ts)\<close>

text \<open>\<open>DiscoveryConfigSchema\<close>: what the validator compiled from the zod schema accepts.\<close>

definition DiscoveryConfigSchema :: "discovery_config \<Rightarrow> bool" where
  "DiscoveryConfigSchema c \<longleftrightarrow>
     length (niche c) \<ge> 1 \<and>
     maxLevels c \<ge> 1 \<and> maxLevels c \<le> 10 \<and>
     maxNodesPerLevel c \<ge> 1 \<and> maxNodesPerLevel c \<le> 100 \<and>
     length (sources c) \<ge> 1"

datatype http_reply = Ok200 start_response | ValidationError400

text \<open>
  The handler runs only on a body the schema accepted; a rejected body is answered with
  status 400 by the error handler and never reaches the service. On an accepted body the
  handler awaits \<open>startDiscovery\<close>, which creates the job and launches its task; the reply is
  written while the task is at its first I/O wait (or has ended, if it has none). The world
  returned here is the one the task leaves when it has ended; the states of the service
  from the reply on are those the run appends to \<open>history\<close>, and then that world's.
\<close>

definition postDiscover ::
  "registry \<Rightarrow> discovery_config \<Rightarrow> string \<Rightarrow> world \<Rightarrow> http_reply \<times> world" where
  "postDiscover reg body uuid w =
     (if DiscoveryConfigSchema body
      then (let (result, w1) = discover reg body uuid w in (Ok200 result, w1))
      else (ValidationError400, w))"

text \<open>
  The worlds the service can be in between two tasks: the fresh one, and those reached by a
  start request with its task, for any answers of Reddit and any cancel requests during
  the run, or by a cancel request.
\<close>

inductive reachable :: "world \<Rightarrow> bool" where
  fresh: "reachable new_world"
| started: "reachable w \<Longrightarrow>
            reachable (snd (postDiscover (analyzerRegistry env sched) body uuid w))"
| cancelled: "reachable w \<Longrightarrow>
              reachable (w\<lparr>svc := snd (cancelJob jobId (ticks w) (svc w))\<rparr>)"

section \<open>GET /api/discover/:jobId/stream (modules/discovery/routes.ts)\<close>

datatype sse_event =
    Connected string job_status
  | Progress rat rat job_status "sub_analysis option"
  | LevelStarted nat
  | NodeFound discovery_node
  | LevelCompleted nat nat nat
  | EdgeFound discovery_edge
  | Done nat nat nat
  | ErrorEvent string string

text \<open>
  One connection: the events written so far, whether the response has been ended, whether
  the polling interval is armed, and the job object fetched when the client connected.
\<close>

record stream =
  events :: "sse_event list"
  ended :: bool
  polling :: bool
  conn_job :: "discovery_job option"

text \<open>
  \<open>Object.keys(nodesByLevel).map(Number).sort()\<close>: the keys of the grouping object come in
  ascending order, and \<open>sort()\<close> without a comparator orders them by their decimal strings.
\<close>

definition levelsOf :: "discovery_node list \<Rightarrow> nat list" where
  "levelsOf ns = sort_key show_nat (sort (remdups (map dn_level ns)))"

definition nodesByLevel :: "discovery_node list \<Rightarrow> nat \<Rightarrow> discovery_node list" where
  "nodesByLevel ns level = filter (\<lambda>n. dn_level n = level) ns"

definition edgeCountOfLevel :: "discovery_graph \<Rightarrow> nat \<Rightarrow> nat" where
  "edgeCountOfLevel g level =
     length (filter (\<lambda>e. case find (\<lambda>n. dn_id n = de_source e) (g_nodes g) of
                            None \<Rightarrow> False
                          | Some sourceNode \<Rightarrow> dn_level sourceNode = level) (g_edges g))"

definition doneEvent :: "discovery_graph \<Rightarrow> sse_event" where
  "doneEvent g = Done (length (g_nodes g)) (length (g_edges g)) (length (levelsOf (g_nodes g)))"

text \<open>The replay inside the polling callback, once the job is seen complete.\<close>

definition replayWhilePolling :: "discovery_graph \<Rightarrow> sse_event list" where
  "replayWhilePolling g =
     concat (map (\<lambda>level.
                    [LevelStarted level] @
                    map NodeFound (nodesByLevel (g_nodes g) level) @
                    [LevelCompleted level (length (nodesByLevel (g_nodes g) level))
                       (edgeCountOfLevel g level)])
               (levelsOf (g_nodes g))) @
     map EdgeFound (g_edges g) @
     [doneEvent g]"

text \<open>The replay of the \<open>else\<close> branch, taken when the graph has nodes at connection time.\<close>

definition replayAlreadyComplete :: "discovery_graph \<Rightarrow> sse_event list" where
  "replayAlreadyComplete g =
     concat (map (\<lambda>level.
                    [LevelStarted level] @
                    map NodeFound (nodesByLevel (g_nodes g) level))
               (levelsOf (g_nodes g))) @
     map EdgeFound (g_edges g) @
     [doneEvent g]"

definition reply_write :: "sse_event list \<Rightarrow> stream \<Rightarrow> stream" where
  "reply_write evs st = st\<lparr>events := events st @ evs\<rparr>"

definition reply_end :: "stream \<Rightarrow> stream" where
  "reply_end st = st\<lparr>ended := True, polling := False\<rparr>"

text \<open>The handler up to the first poll, run against the service state at connection time.\<close>

definition streamConnect :: "string \<Rightarrow> service \<Rightarrow> stream" where
  "streamConnect jobId s =
     (let st0 = \<lparr>events = [], ended = False, polling = False, conn_job = None\<rparr>
      in case getJobStatus jobId s of
           None \<Rightarrow> reply_end (reply_write [ErrorEvent ''Job not found'' ''JOB_NOT_FOUND''] st0)
         | Some job \<Rightarrow>
             (let st1 = reply_write [Connected jobId (j_status job)] (st0\<lparr>conn_job := Some job\<rparr>);
                  jobGraph = getJobGraph jobId (discoveryRepo s)
              in if g_nodes jobGraph = [] then st1\<lparr>polling := True\<rparr>
                 else reply_end (reply_write (replayAlreadyComplete jobGraph) st1)))"

text \<open>
  One firing of the polling interval against the service state of that moment. The
  configuration read for the percentage is that of the job fetched at connection time; a
  validated configuration has \<open>maxLevels\<close> of at least 1.
\<close>

definition pollTick :: "string \<Rightarrow> service \<Rightarrow> stream \<Rightarrow> stream" where
  "pollTick jobId s st =
     (if \<not> polling st then st
      else
        (case getJobStatus jobId s of
           None \<Rightarrow> reply_end (reply_write [ErrorEvent ''Job not found'' ''JOB_NOT_FOUND''] st)
         | Some updatedJob \<Rightarrow>
             (let updatedGraph = getJobGraph jobId (discoveryRepo s);
                  limit = (case conn_job st of None \<Rightarrow> 0 | Some job \<Rightarrow> maxLevels (j_config job));
                  st1 = reply_write [Progress
                                 (if j_status updatedJob = Complete then 100
                                  else currentLevel updatedJob / limit * 100)
                                 (currentLevel updatedJob) (j_status updatedJob)
                                 (subAnalysis updatedJob)] st;
                  st2 = (if j_status updatedJob = Complete \<and> g_nodes updatedGraph \<noteq> []
                         then reply_end (reply_write (replayWhilePolling updatedGraph) st1)
                         else st1)
              in if j_status updatedJob = Error
                 then reply_end (reply_write [ErrorEvent
                                       (case j_error updatedJob of
                                          None \<Rightarrow> ''Discovery failed''
                                        | Some m \<Rightarrow> if m = [] then ''Discovery failed'' else m)
                                       ''DISCOVERY_ERROR''] st2)
                 else st2)))"

text \<open>A connection: the state at connection time, then the states seen by successive polls.\<close>

definition streamSession :: "string \<Rightarrow> service \<Rightarrow> service list \<Rightarrow> stream" where
  "streamSession jobId s later = foldl (\<lambda>st s'. pollTick jobId s' st) (streamConnect jobId s) later"

definition terminal_event :: "sse_event \<Rightarrow> bool" where
  "terminal_event ev = (case ev of Done a b c \<Rightarrow> True | ErrorEvent m c \<Rightarrow> True | _ \<Rightarrow> False)"

section \<open>Conditions on a run\<close>

text \<open>
  No cancel request for the job arrives during any I/O wait; the job has a record and has
  not been cancelled; every parent of a level has its topic extraction fail or come back
  empty, whenever it is asked.
\<close>

definition quiet :: "schedule \<Rightarrow> string \<Rightarrow> bool" where
  "quiet sched jobId \<longleftrightarrow> (\<forall>k. jobId \<notin> set (sched k))"

definition alive :: "string \<Rightarrow> world \<Rightarrow> bool" where
  "alive jobId w \<longleftrightarrow>
     jobId \<notin> cancelledJobs (svc w) \<and> jobs (discoveryRepo (svc w)) jobId \<noteq> None"

definition barren :: "reddit_env \<Rightarrow> analyzer_node list \<Rightarrow> bool" where
  "barren env parents \<longleftrightarrow>
     (\<forall>p \<in> set parents. \<forall>k.
        case extractTopicsFromSubredditWithLLM env k (subredditNameOf p) (n_label p) of
          Inl e \<Rightarrow> True
        | Inr topics \<Rightarrow> topics = [])"

text \<open>
  A stream that is still polling has written no terminal event and is open; no stream has
  written more than one.
\<close>

definition stream_ok :: "stream \<Rightarrow> bool" where
  "stream_ok st \<longleftrightarrow>
     (polling st \<longrightarrow> filter terminal_event (events st) = [] \<and> \<not> ended st) \<and>
     length (filter terminal_event (events st)) \<le> 1"

text \<open>
  The job has a controller and a record, and every cancel request that arrived for it
  since tick \<open>t0\<close> has been entered into \<open>cancelledJobs\<close>.
\<close>

definition tracked :: "schedule \<Rightarrow> string \<Rightarrow> nat \<Rightarrow> world \<Rightarrow> bool" where
  "tracked sched jobId t0 w \<longleftrightarrow>
     jobId \<in> activeJobs (svc w) \<and> jobId \<in> dom (jobs (discoveryRepo (svc w))) \<and>
     t0 \<le> ticks w \<and>
     (\<forall>k. t0 \<le> k \<and> k < ticks w \<and> jobId \<in> set (sched k) \<longrightarrow> jobId \<in> cancelledJobs (svc w))"





text \<open>
  Every controller belongs to a job that has a record and is in neither of the statuses
  \<open>complete\<close> and \<open>error\<close>.
\<close>

definition guarded :: "service \<Rightarrow> bool" where
  "guarded s \<longleftrightarrow>
     (\<forall>jobId \<in> activeJobs s.
        \<exists>job. jobs (discoveryRepo s) jobId = Some job \<and>
              j_status job \<noteq> Complete \<and> j_status job \<noteq> Error)"

text \<open>The store holds a record for the job, with the configuration of the request.\<close>

definition holds_job :: "string \<Rightarrow> discovery_config \<Rightarrow> service \<Rightarrow> bool" where
  "holds_job jobId config s \<longleftrightarrow>
     (\<exists>job. getJobStatus jobId s = Some job \<and> j_id job = jobId \<and> j_config job = config)"

text \<open>
  A property of the service holds now and held during every I/O wait since the \<open>n\<close>-th
  entry of the history.
\<close>

definition observed :: "(service \<Rightarrow> bool) \<Rightarrow> nat \<Rightarrow> world \<Rightarrow> bool" where
  "observed Q n w \<longleftrightarrow> Q (svc w) \<and> (\<forall>s \<in> set (drop n (history w)). Q s)"
section \<open>Sample inputs\<close>

definition sample_config :: discovery_config where
  "sample_config = \<lparr>niche = ''AI tools'', maxLevels = 2, maxNodesPerLevel = 5,
                     sources = [''reddit'']\<rparr>"

definition sample_root :: discovery_node where
  "sample_root = \<lparr>dn_id = ''node-0-0'', dn_label = ''AI tools'', dn_level = 0, dn_type = Niche,
                   dn_source = ''reddit'', dn_confidence = 8 / 10, dn_popularity = 0,
                   dn_data = Some [], dn_metadata = []\<rparr>"

definition sample_child :: discovery_node where
  "sample_child = \<lparr>dn_id = ''node-1-1'', dn_label = ''Prompting'', dn_level = 1,
                    dn_type = SubNiche, dn_source = ''reddit'', dn_confidence = 1 / 2,
                    dn_popularity = 1200, dn_data = Some [], dn_metadata = []\<rparr>"

definition sample_edge :: discovery_edge where
  "sample_edge = \<lparr>de_id = ''edge-0'', de_source = ''node-0-0'', de_target = ''node-1-1'',
                   de_relationship = Contains\<rparr>"

text \<open>A job that is still running, and the same job once complete.\<close>

definition running_service :: service where
  "running_service =
     new_service\<lparr>discoveryRepo :=
       run_repo_ops [CreateJob sample_config ''job-1'' 0,
                     UpdateJobStatus ''job-1'' Discovering None 0],
       activeJobs := {''job-1''}\<rparr>"

definition completed_service :: service where
  "completed_service =
     new_service\<lparr>discoveryRepo :=
       run_repo_ops [CreateJob sample_config ''job-1'' 0,
                     UpdateJobStatus ''job-1'' Discovering None 0,
                     AddNode ''job-1'' sample_root 1,
                     AddNode ''job-1'' sample_child 1,
                     AddEdge ''job-1'' sample_edge 1,
                     UpdateJobStatus ''job-1'' Complete None 1]\<rparr>"

text \<open>
  An analyzer result of the shape the Reddit analyzer produces: a root, two sub-niches and,
  under each of them, a topic with the same label.
\<close>

definition sample_anode :: "string \<Rightarrow> string \<Rightarrow> nat \<Rightarrow> analyzer_node" where
  "sample_anode i l lv =
     \<lparr>n_id = i, n_label = l, n_level = lv, n_type = Topic, n_source = ''reddit'',
      n_data = Some [], n_confidence = 1 / 2, n_popularity = 10\<rparr>"

definition sample_aedge :: "string \<Rightarrow> string \<Rightarrow> analyzer_edge" where
  "sample_aedge s t =
     \<lparr>e_id = ''edge-'' @ s @ ''-'' @ t, e_source = s, e_target = t, e_relationship = Contains,
      e_confidence = 7 / 10, e_source_platform = ''reddit''\<rparr>"

definition sample_result :: analyzer_result where
  "sample_result =
     \<lparr>r_nodes = [sample_anode ''root'' ''AI tools'' 0,
                 sample_anode ''node-1-0'' ''Prompting'' 1,
                 sample_anode ''node-1-1'' ''Local models'' 1,
                 sample_anode ''node-2-node-1-0-0'' ''Agents'' 2,
                 sample_anode ''node-2-node-1-1-0'' ''Agents'' 2],
      r_edges = [sample_aedge ''root'' ''node-1-0'',
                 sample_aedge ''root'' ''node-1-1'',
                 sample_aedge ''node-1-0'' ''node-2-node-1-0-0'',
                 sample_aedge ''node-1-1'' ''node-2-node-1-1-0''],
      r_metadata = \<lparr>m_platform = ''reddit'', m_startTime = 0, m_endTime = 5,
                     m_processingTime = 5, m_apiCalls = 3, m_errors = [],
                     m_platformMetadata = None\<rparr>\<rparr>"




text \<open>
  A Reddit that answers every request: two subreddits, one sub-niche for each of them and
  one topic under every parent. A schedule with one cancel request for \<open>job-1\<close>, arriving
  during the I/O wait of the given number, and the schedule without requests.
\<close>

definition sample_sr1 :: subreddit_info where
  "sample_sr1 = \<lparr>sr_name = ''ChatGPT'', display_name = ''ChatGPT'', subscribers = 5000,
                  description = ''About ChatGPT'', public_description = ''ChatGPT''\<rparr>"

definition sample_sr2 :: subreddit_info where
  "sample_sr2 = \<lparr>sr_name = ''LocalLLaMA'', display_name = ''LocalLLaMA'', subscribers = 3000,
                  description = ''Local models'', public_description = ''LLaMA''\<rparr>"

definition sample_env :: reddit_env where
  "sample_env =
     \<lparr>searchReddit = (\<lambda>k. Inr [''post-1'', ''post-2'']),
      extractSubreddits = (\<lambda>k posts. [sample_sr1, sample_sr2]),
      extractSubNichesFromSubreddit =
        (\<lambda>k sr. Inr [\<lparr>sn_label = display_name sr @ '' users'', sn_reasoning = ''active''\<rparr>]),
      extractTopicsFromSubredditWithLLM =
        (\<lambda>k name parent.
           Inr [\<lparr>t_label = ''Agents'', t_confidence = 1 / 2, t_popularity = Some 10,
                 t_reasoning = ''frequent'', t_data = None\<rparr>]),
      llmScores = (\<lambda>sr sn. \<lparr>baseConfidence = 1 / 2, subscriberFactor = 1 / 2,
                             enhancedConfidence = 6 / 10\<rparr>),
      fallbackConfidence = (\<lambda>sr. 4 / 10),
      failureConfidence = (\<lambda>sr. 3 / 10)\<rparr>"

definition cancel_at :: "nat \<Rightarrow> schedule" where
  "cancel_at k = (\<lambda>t. if t = k then [''job-1''] else [])"

definition no_requests :: schedule where
  "no_requests = (\<lambda>t. [])"

text \<open>
  The job of \<open>sample_config\<close> cancelled during wait 4, the expansion of the first of two
  parents at level 2, and the same job cancelled during wait 1, while the subreddit
  descriptions are fetched.
\<close>

definition cancelled_mid_level :: world where
  "cancelled_mid_level =
     snd (discover (analyzerRegistry sample_env (cancel_at 4)) sample_config ''job-1'' new_world)"

definition cancelled_early :: world where
  "cancelled_early =
     snd (discover (analyzerRegistry sample_env (cancel_at 1)) sample_config ''job-1'' new_world)"

text \<open>A Reddit whose topic extraction always fails, and a job with three levels configured.\<close>

definition failing_env :: reddit_env where
  "failing_env =
     sample_env\<lparr>extractTopicsFromSubredditWithLLM :=
                   (\<lambda>k name parent. Inl (Exn ''Error'' ''Too Many Requests''))\<rparr>"

definition three_levels :: discovery_config where
  "three_levels = sample_config\<lparr>maxLevels := 3\<rparr>"

definition started_world :: world where
  "started_world =
     new_world\<lparr>svc := snd (startDiscovery three_levels ''job-1'' 0 new_service)\<rparr>"

definition level_one :: discovered where
  "level_one =
     \<lparr>allNodes = [rootNode ''AI tools'', namedNode 1 0 sample_sr1 (3 / 10),
                  namedNode 1 1 sample_sr2 (3 / 10)],
      allEdges = [], calls = 1\<rparr>"

text \<open>
  A Reddit whose search results lead to no subreddit that \<open>extractSubreddits\<close> keeps, and the
  job of \<open>sample_config\<close> with the platform named twice, so that the registry asks the
  Reddit analyzer twice. The cancel request arrives during wait 2, after the first analysis
  has returned its result and while the second one fetches its search results.
\<close>

definition bare_reddit :: reddit_env where
  "bare_reddit = sample_env\<lparr>extractSubreddits := (\<lambda>k posts. [])\<rparr>"

definition twice_config :: discovery_config where
  "twice_config = sample_config\<lparr>sources := [''reddit'', ''reddit'']\<rparr>"

definition cancelled_second_analysis :: world where
  "cancelled_second_analysis =
     snd (discover (analyzerRegistry bare_reddit (cancel_at 2)) twice_config ''job-1'' new_world)"

text \<open>A start request that asks for a platform no analyzer is registered for.\<close>

definition unknown_platform :: world where
  "unknown_platform =
     snd (postDiscover (analyzerRegistry sample_env no_requests)
            (sample_config\<lparr>sources := [''twitter'']\<rparr>) ''job-2'' new_world)"

section \<open>JobStore statistics\<close>

lemma stats_consistent_empty: "stats_consistent empty_repo"
  by (simp add: stats_consistent_def empty_repo_def)

lemma stats_consistent_step: "stats_consistent r \<Longrightarrow> stats_consistent (apply_repo_op r op)"
  by (cases op)
     (auto simp: stats_consistent_def createJob_def updateJobStatus_def
        updateJobCurrentLevel_def updateJobSubAnalysis_def addNode_def addEdge_def
        getJobGraph_def Let_def split: option.splits if_splits)

lemma stats_consistent_foldl:
  "stats_consistent r \<Longrightarrow> stats_consistent (foldl apply_repo_op r ops)"
  by (induction ops arbitrary: r) (simp_all add: stats_consistent_step)

text \<open>
  C10. After every sequence of JobStore operations, each job record's \<open>totalNodes\<close> and
  \<open>totalEdges\<close> equal the lengths of the node and edge lists of that job's graph; a
  freshly created job has both at 0 and an empty graph.
\<close>

theorem job_totals_match_graph:
  "jobs (run_repo_ops ops) jobId = Some job \<Longrightarrow>
     totalNodes job = length (g_nodes (getJobGraph jobId (run_repo_ops ops))) \<and>
     totalEdges job = length (g_edges (getJobGraph jobId (run_repo_ops ops)))"
  using stats_consistent_foldl [OF stats_consistent_empty, of ops]
  by (simp add: run_repo_ops_def stats_consistent_def)


theorem job_totals_match_graph_witness:
  "\<exists>job. jobs (run_repo_ops [CreateJob sample_config ''job-1'' 0,
                              AddNode ''job-1'' sample_root 1,
                              AddNode ''job-1'' sample_child 2,
                              AddEdge ''job-1'' sample_edge 3]) ''job-1'' = Some job \<and>
          totalNodes job = 2 \<and> totalEdges job = 1"
proof -
  let ?ops = "[CreateJob sample_config ''job-1'' 0, AddNode ''job-1'' sample_root 1,
               AddNode ''job-1'' sample_child 2, AddEdge ''job-1'' sample_edge 3]"
  obtain job where j: "jobs (run_repo_ops ?ops) ''job-1'' = Some job"
    by (simp add: run_repo_ops_def empty_repo_def createJob_def addNode_def addEdge_def Let_def)
  have g: "getJobGraph ''job-1'' (run_repo_ops ?ops) =
             \<lparr>g_nodes = [sample_root, sample_child], g_edges = [sample_edge]\<rparr>"
    by (simp add: run_repo_ops_def empty_repo_def createJob_def addNode_def addEdge_def
          getJobGraph_def Let_def)
  from job_totals_match_graph [OF j] g have "totalNodes job = 2 \<and> totalEdges job = 1"
    by simp
  with j show ?thesis by blast
qed

section \<open>Start and cancel requests\<close>

lemma startDiscovery_result:
  "startDiscovery config uuid now s =
     (\<lparr>sr_jobId = uuid, sr_status = ''starting'',
       sr_message = ''Discovery job started successfully''\<rparr>,
      s\<lparr>discoveryRepo := snd (createJob config uuid now (discoveryRepo s)),
        activeJobs := insert uuid (activeJobs s)\<rparr>)"
  by (simp add: startDiscovery_def createJob_def Let_def)

lemma cancelJob_inactive:
  "jobId \<notin> activeJobs s \<Longrightarrow>
     cancelJob jobId now s =
       (\<lparr>success = False, cr_message = ''Job not found or already completed''\<rparr>, s)"
  by (simp add: cancelJob_def)

lemma backgroundTask_inactive: "jobId \<notin> activeJobs (svc (backgroundTask reg jobId w))"
  by (simp add: backgroundTask_def Let_def split: prod.splits)

section \<open>Progress stream\<close>

lemmas sample_repo_simps =
  run_repo_ops_def empty_repo_def createJob_def updateJobStatus_def addNode_def addEdge_def
  getJobGraph_def getJob_def getJobStatus_def new_service_def Let_def

lemma sample_levels: "levelsOf [sample_root, sample_child] = [0, 1]"
  by (simp add: levelsOf_def sample_root_def sample_child_def show_nat.simps digit_char_def)

text \<open>
  C1 at a completed job with a root, one child and one edge. A client that connects after
  completion gets no \<open>level_completed\<close> event at all; a client that was connected while the
  job ran gets one per level.
\<close>

theorem replay_differs_after_completion:
  "events (streamSession ''job-1'' completed_service []) =
     [Connected ''job-1'' Complete,
      LevelStarted 0, NodeFound sample_root,
      LevelStarted 1, NodeFound sample_child,
      EdgeFound sample_edge, Done 2 1 2] \<and>
   events (streamSession ''job-1'' running_service [completed_service]) =
     [Connected ''job-1'' Discovering, Progress 100 0 Complete None,
      LevelStarted 0, NodeFound sample_root, LevelCompleted 0 1 1,
      LevelStarted 1, NodeFound sample_child, LevelCompleted 1 1 0,
      EdgeFound sample_edge, Done 2 1 2]"
proof -
  have g: "getJobGraph ''job-1'' (discoveryRepo completed_service) =
             \<lparr>g_nodes = [sample_root, sample_child], g_edges = [sample_edge]\<rparr>"
    by (simp add: completed_service_def sample_repo_simps)
  have j: "map_option j_status (getJobStatus ''job-1'' completed_service) = Some Complete"
          "map_option currentLevel (getJobStatus ''job-1'' completed_service) = Some 0"
          "map_option subAnalysis (getJobStatus ''job-1'' completed_service) = Some None"
    by (simp_all add: completed_service_def sample_repo_simps)
  have r: "getJobGraph ''job-1'' (discoveryRepo running_service) = \<lparr>g_nodes = [], g_edges = []\<rparr>"
          "map_option j_status (getJobStatus ''job-1'' running_service) = Some Discovering"
    by (simp_all add: running_service_def sample_repo_simps)
  have ids: "dn_id sample_root = ''node-0-0''" "dn_id sample_child = ''node-1-1''"
            "dn_level sample_root = 0" "dn_level sample_child = 1"
            "de_source sample_edge = ''node-0-0''"
    by (simp_all add: sample_root_def sample_child_def sample_edge_def)
  have late: "events (streamSession ''job-1'' completed_service []) =
     [Connected ''job-1'' Complete,
      LevelStarted 0, NodeFound sample_root,
      LevelStarted 1, NodeFound sample_child,
      EdgeFound sample_edge, Done 2 1 2]"
    using g j
    by (auto simp: streamSession_def streamConnect_def reply_write_def reply_end_def
          replayAlreadyComplete_def doneEvent_def sample_levels nodesByLevel_def ids Let_def
          split: option.splits)
  have live: "events (streamSession ''job-1'' running_service [completed_service]) =
     [Connected ''job-1'' Discovering, Progress 100 0 Complete None,
      LevelStarted 0, NodeFound sample_root, LevelCompleted 0 1 1,
      LevelStarted 1, NodeFound sample_child, LevelCompleted 1 1 0,
      EdgeFound sample_edge, Done 2 1 2]"
    using g j r
    by (auto simp: streamSession_def streamConnect_def pollTick_def reply_write_def
          reply_end_def replayWhilePolling_def doneEvent_def sample_levels nodesByLevel_def
          edgeCountOfLevel_def ids Let_def split: option.splits)
  from late live show ?thesis by simp
qed

subsection \<open>What holds of every connection\<close>

text \<open>
  Both replays order the levels by their decimal strings: level 10 comes before level 2.
\<close>

lemma levels_in_string_order:
  "levelsOf [sample_root\<lparr>dn_level := 2\<rparr>, sample_root\<lparr>dn_level := 10\<rparr>] = [10, 2]"
  by (simp add: levelsOf_def sample_root_def show_nat.simps digit_char_def)

lemma replay_late_is_live_without_level_completed:
  "replayAlreadyComplete g =
     filter (\<lambda>ev. case ev of LevelCompleted l n e \<Rightarrow> False | _ \<Rightarrow> True) (replayWhilePolling g)"
proof -
  let ?keep = "\<lambda>ev. case ev of LevelCompleted l n e \<Rightarrow> False | _ \<Rightarrow> True"
  have n: "filter ?keep (map NodeFound ns) = map NodeFound ns" for ns
    by (induction ns) simp_all
  have e: "filter ?keep (map EdgeFound es) = map EdgeFound es" for es
    by (induction es) simp_all
  have l: "filter ?keep
             (concat (map (\<lambda>level. LevelStarted level #
                                     map NodeFound (nodesByLevel (g_nodes g) level) @
                                     [LevelCompleted level (length (nodesByLevel (g_nodes g) level))
                                        (edgeCountOfLevel g level)]) ls)) =
           concat (map (\<lambda>level. LevelStarted level #
                                   map NodeFound (nodesByLevel (g_nodes g) level)) ls)" for ls
    by (induction ls) (simp_all add: n)
  show ?thesis
    by (simp add: replayAlreadyComplete_def replayWhilePolling_def l e doneEvent_def)
qed

lemma terminal_replay:
  "filter terminal_event (replayWhilePolling g) = [doneEvent g]"
  "filter terminal_event (replayAlreadyComplete g) = [doneEvent g]"
proof -
  have n: "filter terminal_event (map NodeFound ns) = []" for ns
    by (induction ns) (simp_all add: terminal_event_def)
  have e: "filter terminal_event (map EdgeFound es) = []" for es
    by (induction es) (simp_all add: terminal_event_def)
  have l1: "filter terminal_event
             (concat (map (\<lambda>level. LevelStarted level #
                                     map NodeFound (nodesByLevel (g_nodes g) level) @
                                     [LevelCompleted level (length (nodesByLevel (g_nodes g) level))
                                        (edgeCountOfLevel g level)]) ls)) = []" for ls
    by (induction ls) (simp_all add: n terminal_event_def)
  have l2: "filter terminal_event
             (concat (map (\<lambda>level. LevelStarted level #
                                   map NodeFound (nodesByLevel (g_nodes g) level)) ls)) = []" for ls
    by (induction ls) (simp_all add: n terminal_event_def)
  show "filter terminal_event (replayWhilePolling g) = [doneEvent g]"
    by (simp add: replayWhilePolling_def l1 e) (simp add: doneEvent_def terminal_event_def)
  show "filter terminal_event (replayAlreadyComplete g) = [doneEvent g]"
    by (simp add: replayAlreadyComplete_def l2 e) (simp add: doneEvent_def terminal_event_def)
qed

lemma streamConnect_ok: "stream_ok (streamConnect jobId s)"
  by (auto simp: stream_ok_def streamConnect_def reply_write_def reply_end_def Let_def
        terminal_replay terminal_event_def split: option.splits)

lemma pollTick_ok: "stream_ok st \<Longrightarrow> stream_ok (pollTick jobId s st)"
  by (auto simp: stream_ok_def pollTick_def reply_write_def reply_end_def Let_def
        terminal_replay terminal_event_def split: option.splits)

lemma at_most_one_terminal_event:
  "length (filter terminal_event (events (streamSession jobId s later))) \<le> 1"
proof -
  have "stream_ok st \<Longrightarrow> stream_ok (foldl (\<lambda>st s'. pollTick jobId s' st) st later)" for st
    by (induction later arbitrary: st) (simp_all add: pollTick_ok)
  from this [OF streamConnect_ok] show ?thesis
    by (simp add: streamSession_def stream_ok_def)
qed

lemma cancelled_polls_emit_no_terminal_event:
  assumes j: "getJobStatus jobId s = Some job" "j_status job = Cancelled"
    and g: "g_nodes (getJobGraph jobId (discoveryRepo s)) = []"
  shows "filter terminal_event (events (streamSession jobId s (replicate n s))) = [] \<and>
         \<not> ended (streamSession jobId s (replicate n s)) \<and>
         polling (streamSession jobId s (replicate n s))"
proof -
  let ?P = "\<lambda>st. filter terminal_event (events st) = [] \<and> \<not> ended st \<and> polling st"
  have c: "?P (streamConnect jobId s)"
    using j g by (simp add: streamConnect_def reply_write_def Let_def terminal_event_def)
  have t: "?P st \<Longrightarrow> ?P (pollTick jobId s st)" for st
    using j g by (simp add: pollTick_def reply_write_def Let_def terminal_event_def)
  have "?P st \<Longrightarrow> ?P (foldl (\<lambda>st s'. pollTick jobId s' st) st (replicate n s))" for st
    by (induction n arbitrary: st) (simp_all add: t)
  from this [OF c] show ?thesis
    by (simp add: streamSession_def)
qed

section \<open>Cross-analyzer merge\<close>

lemma show_nat_small:
  "show_nat 0 = ''0''" "show_nat (Suc 0) = ''1''" "show_nat 1 = ''1''" "show_nat 2 = ''2''"
  "show_nat 3 = ''3''" "show_nat (Suc (Suc 0)) = ''2''" "show_nat (Suc (Suc (Suc 0))) = ''3''"
  by (simp_all add: show_nat.simps digit_char_def)

lemma sample_labels:
  "trim (toLowerCase ''AI tools'') = ''ai tools''"
  "trim (toLowerCase ''Prompting'') = ''prompting''"
  "trim (toLowerCase ''Local models'') = ''local models''"
  "trim (toLowerCase ''Agents'') = ''agents''"
  "trim (toLowerCase ''Entrepreneur'') = ''entrepreneur''"
  "trim (toLowerCase '' entrepreneur'') = ''entrepreneur''"
  by (simp_all add: toLowerCase_def lower_char_def trim_def is_space_def)

lemma sample_keys:
  "nodeKey (sample_anode i l lv) = trim (toLowerCase l) @ ''-'' @ show_nat lv"
  by (simp add: sample_anode_def nodeKey_def)

lemma sample_anode_sel:
  "n_id (sample_anode i l lv) = i" "n_label (sample_anode i l lv) = l"
  "n_level (sample_anode i l lv) = lv" "n_confidence (sample_anode i l lv) = 1 / 2"
  "n_popularity (sample_anode i l lv) = 10" "n_data (sample_anode i l lv) = Some []"
  "n_source (sample_anode i l lv) = ''reddit''"
  by (simp_all add: sample_anode_def)

lemma sample_dedup:
  "dedupNodes (r_nodes sample_result) =
     [sample_anode ''root'' ''AI tools'' 0,
      sample_anode ''node-1-0'' ''Prompting'' 1,
      sample_anode ''node-1-1'' ''Local models'' 1,
      (sample_anode ''node-2-node-1-0-0'' ''Agents'' 2)\<lparr>n_popularity := 20\<rparr>]"
  by (simp add: sample_result_def dedupNodes_def dedupNodeStep_def sample_keys sample_labels
        show_nat_small map_set_def mergeNode_def spread_def Let_def sample_anode_sel)

lemma sample_dedup_edges:
  "dedupEdges (r_edges sample_result) = r_edges sample_result"
  by (simp add: sample_result_def dedupEdges_def dedupEdgeStep_def edgeKey_def sample_aedge_def
        map_set_def show_relationship_def Let_def)

text \<open>
  C3 at one analyzer result in which two parents each found a topic labelled "Agents".
  The second topic node is discarded as a duplicate; the edge that pointed to it keeps the
  discarded id \<open>node-2-node-1-1-0\<close>, which is the id of no node of the merged result.
\<close>

theorem remap_leaves_dangling_edge:
  "map n_id (c_nodes (combineResults [sample_result] 0 5)) =
     [''node-0-0'', ''node-1-1'', ''node-1-2'', ''node-2-3''] \<and>
   map (\<lambda>e. (e_source e, e_target e)) (c_edges (combineResults [sample_result] 0 5)) =
     [(''node-0-0'', ''node-1-1''), (''node-0-0'', ''node-1-2''),
      (''node-1-1'', ''node-2-3''), (''node-1-2'', ''node-2-node-1-1-0'')]"
proof -
  have m: "buildNodeIdMap (dedupNodes (r_nodes sample_result)) =
             [(''root'', ''node-0-0''), (''node-1-0'', ''node-1-1''),
              (''node-1-1'', ''node-1-2''), (''node-2-node-1-0-0'', ''node-2-3'')]"
    by (simp add: sample_dedup buildNodeIdMap_def newNodeId_def map_set_def sample_anode_sel
          show_nat_small)
  have n: "map n_id (renumberNodes (dedupNodes (r_nodes sample_result))) =
             [''node-0-0'', ''node-1-1'', ''node-1-2'', ''node-2-3'']"
    by (simp add: sample_dedup renumberNodes_def newNodeId_def sample_anode_sel show_nat_small)
  have e: "map (\<lambda>e. (e_source e, e_target e))
             (remapEdges (buildNodeIdMap (dedupNodes (r_nodes sample_result)))
                (dedupEdges (r_edges sample_result))) =
            [(''node-0-0'', ''node-1-1''), (''node-0-0'', ''node-1-2''),
             (''node-1-1'', ''node-2-3''), (''node-1-2'', ''node-2-node-1-1-0'')]"
    unfolding m sample_dedup_edges
    by (simp add: sample_result_def remapEdges_def remapId_def sample_aedge_def)
  show ?thesis using n e by (simp add: combineResults_def Let_def)
qed

subsection \<open>Merging duplicates\<close>


lemma mergeNode_keeps:
  "n_label (mergeNode e n) = n_label e" "n_level (mergeNode e n) = n_level e"
  by (simp_all add: mergeNode_def Let_def split: option.splits)

lemma nodeKeyWith_mergeNode: "nodeKeyWith lowerTrim (mergeNode e n) = nodeKeyWith lowerTrim e"
  by (simp add: nodeKeyWith_def mergeNode_keeps)

lemma foldl_mergeNode_key: "nodeKeyWith lowerTrim (foldl mergeNode e gs) = nodeKeyWith lowerTrim e"
  by (induction gs arbitrary: e) (simp_all add: nodeKeyWith_mergeNode)


















section \<open>Background task: frame and liveness lemmas\<close>

lemma updateJobStatus_dom [simp]:
  "(jobs (updateJobStatus j st err now r) jobId = None) = (jobs r jobId = None)"
  by (auto simp: updateJobStatus_def split: option.splits)

lemma updateJobCurrentLevel_dom [simp]:
  "(jobs (updateJobCurrentLevel j l now r) jobId = None) = (jobs r jobId = None)"
  by (auto simp: updateJobCurrentLevel_def split: option.splits)

lemma updateJobSubAnalysis_dom [simp]:
  "(jobs (updateJobSubAnalysis j sa now r) jobId = None) = (jobs r jobId = None)"
  by (auto simp: updateJobSubAnalysis_def split: option.splits)

lemma addNode_dom [simp]: "(jobs (addNode j n now r) jobId = None) = (jobs r jobId = None)"
  by (auto simp: addNode_def Let_def split: option.splits)

lemma addEdge_dom [simp]: "(jobs (addEdge j e now r) jobId = None) = (jobs r jobId = None)"
  by (auto simp: addEdge_def Let_def split: option.splits)

lemma cancelJob_other:
  "j \<noteq> jobId \<Longrightarrow>
     (jobId \<in> cancelledJobs (snd (cancelJob j now s))) = (jobId \<in> cancelledJobs s) \<and>
     (jobs (discoveryRepo (snd (cancelJob j now s))) jobId = None) =
       (jobs (discoveryRepo s) jobId = None)"
  by (simp add: cancelJob_def)

lemma cancel_others:
  "jobId \<notin> set js \<Longrightarrow>
     (jobId \<in> cancelledJobs (foldl (\<lambda>s j. snd (cancelJob j now s)) s js)) =
       (jobId \<in> cancelledJobs s) \<and>
     (jobs (discoveryRepo (foldl (\<lambda>s j. snd (cancelJob j now s)) s js)) jobId = None) =
       (jobs (discoveryRepo s) jobId = None)"
proof (induction js arbitrary: s)
  case Nil
  then show ?case by simp
next
  case (Cons j js)
  then have "j \<noteq> jobId" "jobId \<notin> set js" by auto
  then show ?case
    using Cons.IH [of "snd (cancelJob j now s)"] cancelJob_other [of j jobId now s]
    by simp
qed

lemma alive_io_wait: "quiet sched jobId \<Longrightarrow> alive jobId w \<Longrightarrow> alive jobId (io_wait sched w)"
  using cancel_others [of jobId "sched (ticks w)" "ticks w" "svc w"]
  by (simp add: alive_def quiet_def io_wait_def Let_def)

lemma ticks_io_wait [simp]: "ticks (io_wait sched w) = Suc (ticks w)"
  by (simp add: io_wait_def Let_def)

lemma callback_alive:
  "alive jobId w \<Longrightarrow>
     \<exists>w'. progressCallback jobId p w = Inr w' \<and> alive jobId w' \<and> ticks w' = ticks w \<and>
          map_option currentLevel (jobs (discoveryRepo (svc w')) jobId) = Some (p_currentLevel p)"
  by (auto simp: alive_def progressCallback_def on_repo_def Let_def updateJobCurrentLevel_def
        updateJobSubAnalysis_def split: option.splits)

lemma createNodes_alive:
  "quiet sched jobId \<Longrightarrow> alive jobId w \<Longrightarrow>
     \<exists>ns w'. createNodesFromSubredditsWithLLM env sched (progressCallback jobId) level n srs nodes w
               = (Inr ns, w') \<and> alive jobId w'"
proof (induction srs arbitrary: nodes w)
  case Nil
  then show ?case by simp
next
  case (Cons x srs)
  obtain index sr where x: "x = (index, sr)" by (cases x)
  let ?p1 = "report (of_nat level) (Some (snapshot n index (''r/'' @ display_name sr) ''llm_analysis'' 0))"
  let ?p2 = "report (of_nat level) (Some (snapshot n index (''r/'' @ display_name sr) ''processing'' 75))"
  from callback_alive [OF Cons.prems(2), of ?p1] obtain w1 where
    w1: "progressCallback jobId ?p1 w = Inr w1" "alive jobId w1" by blast
  have a2: "alive jobId (io_wait sched w1)"
    using alive_io_wait [OF Cons.prems(1) w1(2)] .
  from callback_alive [OF a2, of ?p2] obtain w3 where
    w3: "progressCallback jobId ?p2 (io_wait sched w1) = Inr w3" "alive jobId w3" by blast
  show ?case
    using w1 w3 a2 Cons.IH [OF Cons.prems(1) a2] Cons.IH [OF Cons.prems(1) w3(2)]
    by (simp add: x Let_def split: sum.splits list.splits)
qed

lemma expandParents_alive:
  "quiet sched jobId \<Longrightarrow> alive jobId w \<Longrightarrow>
     alive jobId (snd (expandParents env sched (progressCallback jobId) level n ps acc w))"
proof (induction ps arbitrary: acc w)
  case Nil
  then show ?case by simp
next
  case (Cons x ps)
  obtain parentIndex parentNode where x: "x = (parentIndex, parentNode)" by (cases x)
  let ?p = "report (of_nat level)
              (Some (snapshot n parentIndex (n_label parentNode) ''llm_analysis'' 25))"
  from callback_alive [OF Cons.prems(2), of ?p] obtain w1 where
    w1: "progressCallback jobId ?p w = Inr w1" "alive jobId w1" by blast
  have a2: "alive jobId (io_wait sched w1)"
    using alive_io_wait [OF Cons.prems(1) w1(2)] .
  show ?case
    using w1 Cons.IH [OF Cons.prems(1) a2]
    by (simp add: x Let_def split: sum.splits)
qed

lemma expandParents_barren:
  "quiet sched jobId \<Longrightarrow> alive jobId w \<Longrightarrow> barren env (map snd ps) \<Longrightarrow>
     \<exists>c w'. expandParents env sched (progressCallback jobId) level n ps acc w
               = (acc\<lparr>apiCalls := c\<rparr>, w') \<and>
            alive jobId w' \<and> ticks w' = ticks w + length ps"
proof (induction ps arbitrary: acc w)
  case Nil
  have "acc = acc\<lparr>apiCalls := apiCalls acc\<rparr>" by simp
  with Nil show ?case by (metis expandParents.simps(1) add.right_neutral list.size(3))
next
  case (Cons x ps)
  obtain parentIndex parentNode where x: "x = (parentIndex, parentNode)" by (cases x)
  let ?p = "report (of_nat level)
              (Some (snapshot n parentIndex (n_label parentNode) ''llm_analysis'' 25))"
  from callback_alive [OF Cons.prems(2), of ?p] obtain w1 where
    w1: "progressCallback jobId ?p w = Inr w1" "alive jobId w1" "ticks w1 = ticks w" by blast
  have a2: "alive jobId (io_wait sched w1)"
    using alive_io_wait [OF Cons.prems(1) w1(2)] .
  have b: "barren env (map snd ps)"
    using Cons.prems(3) by (simp add: barren_def)
  have t: "case extractTopicsFromSubredditWithLLM env (ticks w1) (subredditNameOf parentNode)
                  (n_label parentNode) of Inl e \<Rightarrow> True | Inr topics \<Rightarrow> topics = []"
    using Cons.prems(3) by (simp add: barren_def x)
  from Cons.IH [OF Cons.prems(1) a2 b, of acc] obtain c w' where
    r0: "expandParents env sched (progressCallback jobId) level n ps acc (io_wait sched w1)
           = (acc\<lparr>apiCalls := c\<rparr>, w')" "alive jobId w'"
        "ticks w' = ticks (io_wait sched w1) + length ps" by blast
  from Cons.IH [OF Cons.prems(1) a2 b, of "acc\<lparr>apiCalls := Suc (apiCalls acc)\<rparr>"]
  obtain c1 w1' where
    r1: "expandParents env sched (progressCallback jobId) level n ps
           (acc\<lparr>apiCalls := Suc (apiCalls acc)\<rparr>) (io_wait sched w1)
           = (acc\<lparr>apiCalls := c1\<rparr>, w1')" "alive jobId w1'"
        "ticks w1' = ticks (io_wait sched w1) + length ps" by auto
  show ?case
    using w1 t r0 r1
    by (auto simp: x Let_def split: sum.splits)
qed

lemma expandLevels_alive:
  "quiet sched jobId \<Longrightarrow> alive jobId w \<Longrightarrow>
     \<exists>d' w'. expandLevels env sched (progressCallback jobId) config level d w = (Inr d', w') \<and>
             alive jobId w'"
proof (induction env sched "progressCallback jobId" config level d w rule: expandLevels.induct)
  case (1 env sched config level d w)
  show ?case
  proof (cases "of_nat level \<le> ac_maxLevels config")
    case False
    then show ?thesis
      using "1.prems" by (simp add: expandLevels.simps)
  next
    case True
    let ?parents = "filter (\<lambda>n. n_level n = level - 1) (allNodes d)"
    let ?n = "length ?parents"
    let ?p1 = "report (of_nat level)
                 (Some (snapshot ?n 0 ''Preparing level analysis'' ''fetching'' 0))"
    let ?p2 = "report (of_nat level) None"
    from callback_alive [OF "1.prems"(2), of ?p1] obtain w1 where
      w1: "progressCallback jobId ?p1 w = Inr w1" "alive jobId w1" by blast
    obtain acc w2 where
      e: "expandParents env sched (progressCallback jobId) level ?n
            (enumerate 0 (take ?n ?parents))
            \<lparr>levelNodes = [], levelEdges = [], apiCalls = calls d\<rparr> w1 = (acc, w2)"
      by (cases "expandParents env sched (progressCallback jobId) level ?n
            (enumerate 0 (take ?n ?parents))
            \<lparr>levelNodes = [], levelEdges = [], apiCalls = calls d\<rparr> w1")
    have a2: "alive jobId w2"
      using expandParents_alive [OF "1.prems"(1) w1(2), of env level ?n
              "enumerate 0 (take ?n ?parents)"
              "\<lparr>levelNodes = [], levelEdges = [], apiCalls = calls d\<rparr>"] e
      by simp
    from callback_alive [OF a2, of ?p2] obtain w3 where
      w3: "progressCallback jobId ?p2 w2 = Inr w3" "alive jobId w3" by blast
    show ?thesis
    proof (cases "levelNodes acc = []")
      case True
      then show ?thesis
        using \<open>of_nat level \<le> ac_maxLevels config\<close> w1 e w3
        by (subst expandLevels.simps) (simp add: Let_def)
    next
      case False
      let ?d1 = "\<lparr>allNodes = allNodes d @ levelNodes acc,
                  allEdges = allEdges d @ levelEdges acc, calls = apiCalls acc\<rparr>"
      have "\<exists>d' w'. expandLevels env sched (progressCallback jobId) config (Suc level) ?d1 w3
                       = (Inr d', w') \<and> alive jobId w'"
        using "1.hyps" [of ?parents ?n w1 "(acc, w2)" acc w2 ?d1 w3]
              \<open>of_nat level \<le> ac_maxLevels config\<close> w1 e w3 False "1.prems"(1)
        by simp
      then show ?thesis
        using \<open>of_nat level \<le> ac_maxLevels config\<close> w1 e w3 False
        by (subst expandLevels.simps) (simp add: Let_def)
    qed
  qed
qed

lemma map_snd_enumerate [simp]: "map snd (enumerate n xs) = xs"
  by (induction xs arbitrary: n) simp_all

lemma expandLevels_barren:
  assumes q: "quiet sched jobId" and a: "alive jobId w"
    and le: "of_nat level \<le> ac_maxLevels config"
    and b: "barren env (filter (\<lambda>n. n_level n = level - 1) (allNodes d))"
  shows "\<exists>c w'. expandLevels env sched (progressCallback jobId) config level d w
                  = (Inr (d\<lparr>calls := c\<rparr>), w') \<and>
               alive jobId w' \<and>
               ticks w' = ticks w + length (filter (\<lambda>n. n_level n = level - 1) (allNodes d)) \<and>
               map_option currentLevel (jobs (discoveryRepo (svc w')) jobId) = Some (of_nat level)"
proof -
  let ?parents = "filter (\<lambda>n. n_level n = level - 1) (allNodes d)"
  let ?n = "length ?parents"
  let ?p1 = "report (of_nat level)
               (Some (snapshot ?n 0 ''Preparing level analysis'' ''fetching'' 0))"
  let ?p2 = "report (of_nat level) None"
  let ?acc0 = "\<lparr>levelNodes = [], levelEdges = [], apiCalls = calls d\<rparr>"
  from callback_alive [OF a, of ?p1] obtain w1 where
    w1: "progressCallback jobId ?p1 w = Inr w1" "alive jobId w1" "ticks w1 = ticks w" by blast
  have b': "barren env (map snd (enumerate 0 (take ?n ?parents)))"
    using b by simp
  from expandParents_barren [OF q w1(2) b', of level ?n ?acc0] obtain c w2 where
    e: "expandParents env sched (progressCallback jobId) level ?n
          (enumerate 0 (take ?n ?parents)) ?acc0 w1 = (?acc0\<lparr>apiCalls := c\<rparr>, w2)"
       "alive jobId w2" "ticks w2 = ticks w1 + ?n"
    by auto
  from callback_alive [OF e(2), of ?p2] obtain w3 where
    w3: "progressCallback jobId ?p2 w2 = Inr w3" "alive jobId w3" "ticks w3 = ticks w2"
        "map_option currentLevel (jobs (discoveryRepo (svc w3)) jobId) = Some (p_currentLevel ?p2)"
    by blast
  have "expandLevels env sched (progressCallback jobId) config level d w
          = (Inr (d\<lparr>calls := c\<rparr>), w3)"
    using le w1 e w3 by (subst expandLevels.simps) (simp add: Let_def)
  then show ?thesis
    using w1 e w3 by (auto simp: report_def)
qed

lemma analyzeBody_alive:
  assumes q: "quiet sched jobId" and a: "alive jobId w"
    and s: "\<forall>k. \<exists>posts. searchReddit env k = Inr posts"
  shows "\<exists>res w'. analyzeBody env sched nic config (progressCallback jobId) w = (Inr res, w') \<and>
                 alive jobId w'"
proof -
  let ?cb = "progressCallback jobId"
  let ?pa = "report 0 None"
  let ?pb = "report 0 (Some (snapshot 1 0 ([CHR 0x22] @ nic @ [CHR 0x22]) ''fetching'' 10))"
  from callback_alive [OF a, of ?pa] obtain w1 where
    w1: "?cb ?pa w = Inr w1" "alive jobId w1" by blast
  from callback_alive [OF w1(2), of ?pb] obtain w2 where
    w2: "?cb ?pb w1 = Inr w2" "alive jobId w2" by blast
  let ?w3 = "io_wait sched w2"
  have a3: "alive jobId ?w3" using alive_io_wait [OF q w2(2)] .
  from s obtain posts where p: "searchReddit env (ticks w2) = Inr posts" by blast
  let ?w4 = "io_wait sched ?w3"
  have a4: "alive jobId ?w4" using alive_io_wait [OF q a3] .
  let ?subs = "extractSubreddits env (ticks ?w3) posts"
  let ?pc = "report 1 (Some (snapshot (length ?subs) 0 ''Preparing subreddit analysis''
                               ''processing'' 0))"
  from callback_alive [OF a4, of ?pc] obtain w5 where
    w5: "?cb ?pc ?w4 = Inr w5" "alive jobId w5" by blast
  from createNodes_alive [OF q w5(2), of env 1 "length ?subs" "enumerate 0 ?subs" "[]"]
  obtain level1Nodes w6 where
    w6: "createNodesFromSubredditsWithLLM env sched ?cb 1 (length ?subs) (enumerate 0 ?subs) [] w5
           = (Inr level1Nodes, w6)" "alive jobId w6" by blast
  from callback_alive [OF w6(2), of "report 1 None"] obtain w7 where
    w7: "?cb (report 1 None) w6 = Inr w7" "alive jobId w7" by blast
  let ?d0 = "\<lparr>allNodes = rootNode nic # level1Nodes,
              allEdges = map (rootEdge nic) level1Nodes, calls = 1\<rparr>"
  from expandLevels_alive [OF q w7(2), of env config 2 ?d0] obtain d w8 where
    w8: "expandLevels env sched ?cb config 2 ?d0 w7 = (Inr d, w8)" "alive jobId w8" by blast
  from callback_alive [OF w8(2), of "report (ac_maxLevels config) None"] obtain w9 where
    w9: "?cb (report (ac_maxLevels config) None) w8 = Inr w9" "alive jobId w9" by blast
  show ?thesis
    using w1 w2 p w5 w6 w7 w8 w9
    by (simp add: analyzeBody_def Let_def)
qed

lemma analyze_alive:
  assumes "quiet sched jobId" "alive jobId w" "\<forall>k. \<exists>posts. searchReddit env k = Inr posts"
  shows "\<exists>res w'. analyze env sched nic config (progressCallback jobId) w = (Inr res, w') \<and>
                 alive jobId w'"
  using analyzeBody_alive [OF assms, of nic config]
  by (auto simp: analyze_def)

lemma runAnalyzers_reddit:
  assumes q: "quiet sched jobId" and s: "\<forall>k. \<exists>posts. searchReddit env k = Inr posts"
  shows "alive jobId w \<Longrightarrow> \<forall>x \<in> set as. snd x = analyze env sched \<Longrightarrow>
     \<exists>rs w'. runAnalyzers as nic config (progressCallback jobId) w = (rs, [], w') \<and>
             length rs = length as \<and> alive jobId w'"
proof (induction as arbitrary: w)
  case Nil
  then show ?case by simp
next
  case (Cons x as)
  obtain name a where x: "x = (name, a)" by (cases x)
  with Cons.prems have a: "a = analyze env sched" by simp
  from analyze_alive [OF q Cons.prems(1) s, of nic config] obtain res w1 where
    r: "analyze env sched nic config (progressCallback jobId) w = (Inr res, w1)" "alive jobId w1"
    by blast
  from Cons.IH [OF r(2)] Cons.prems(2) obtain rs w' where
    "runAnalyzers as nic config (progressCallback jobId) w1 = (rs, [], w')"
    "length rs = length as" "alive jobId w'" by auto
  then show ?case
    using r by (simp add: x a)
qed

lemma getAnalyzer_reddit:
  "getAnalyzer (analyzerRegistry env sched) p =
     (if p = ''reddit'' then Some (analyze env sched) else None)"
  by (simp add: getAnalyzer_def analyzerRegistry_def register_def map_set_def platform_def)

lemma reddit_analyzers:
  "\<forall>x \<in> set (concat (map (\<lambda>p. case getAnalyzer (analyzerRegistry env sched) p of
                                   None \<Rightarrow> [] | Some a \<Rightarrow> [(p, a)]) platforms)).
     snd x = analyze env sched"
  by (auto simp: getAnalyzer_reddit split: if_splits)

lemma reddit_analyzers_nonempty:
  "''reddit'' \<in> set platforms \<Longrightarrow>
     concat (map (\<lambda>p. case getAnalyzer (analyzerRegistry env sched) p of
                        None \<Rightarrow> [] | Some a \<Rightarrow> [(p, a)]) platforms) \<noteq> []"
  by (auto simp: getAnalyzer_reddit)

lemma analyzeWithMultiplePlatforms_alive:
  assumes q: "quiet sched jobId" and a: "alive jobId w"
    and s: "\<forall>k. \<exists>posts. searchReddit env k = Inr posts"
    and r: "''reddit'' \<in> set platforms"
  shows "\<exists>res w'. analyzeWithMultiplePlatforms (analyzerRegistry env sched) nic platforms config
                    (progressCallback jobId) w = (Inr res, w') \<and> alive jobId w'"
proof -
  let ?as = "concat (map (\<lambda>p. case getAnalyzer (analyzerRegistry env sched) p of
                                 None \<Rightarrow> [] | Some a \<Rightarrow> [(p, a)]) platforms)"
  have ne: "?as \<noteq> []" using reddit_analyzers_nonempty [OF r] .
  from runAnalyzers_reddit [OF q s a reddit_analyzers, of platforms nic config]
  obtain rs w' where
    rs: "runAnalyzers ?as nic config (progressCallback jobId) w = (rs, [], w')"
        "length rs = length ?as" "alive jobId w'" by blast
  have "rs \<noteq> []" using rs(2) ne by auto
  then show ?thesis
    using rs ne by (simp add: analyzeWithMultiplePlatforms_def Let_def)
qed

lemma on_repo_svc [simp]:
  "cancelledJobs (svc (on_repo f w)) = cancelledJobs (svc w)"
  "activeJobs (svc (on_repo f w)) = activeJobs (svc w)"
  "discoveryRepo (svc (on_repo f w)) = f (ticks w) (discoveryRepo (svc w))"
  "ticks (on_repo f w) = ticks w"
  by (simp_all add: on_repo_def)

lemma store_nodes_dom:
  "(jobs (discoveryRepo (svc (foldl (\<lambda>w n. on_repo (addNode jobId (f n)) w) w ns))) j = None)
     = (jobs (discoveryRepo (svc w)) j = None)"
  by (induction ns arbitrary: w) simp_all

lemma store_edges_dom:
  "(jobs (discoveryRepo (svc (foldl (\<lambda>w e. on_repo (addEdge jobId (f e)) w) w es))) j = None)
     = (jobs (discoveryRepo (svc w)) j = None)"
  by (induction es arbitrary: w) simp_all

lemma storeAnalyzerResults_dom:
  "(jobs (discoveryRepo (svc (storeAnalyzerResults jobId res w))) j = None)
     = (jobs (discoveryRepo (svc w)) j = None)"
  by (simp add: storeAnalyzerResults_def Let_def store_nodes_dom store_edges_dom)

lemma updateJobStatus_status:
  "jobs r jobId \<noteq> None \<Longrightarrow>
     map_option j_status (jobs (updateJobStatus jobId st err now r) jobId) = Some st"
  by (auto simp: updateJobStatus_def split: option.splits)

lemma updateJobStatus_written:
  "jobs (updateJobStatus jobId st err now r) jobId = Some job \<Longrightarrow> j_status job = st"
  by (auto simp: updateJobStatus_def split: option.splits)

lemma backgroundTask_completes:
  assumes q: "quiet sched jobId" and a: "alive jobId w"
    and s: "\<forall>k. \<exists>posts. searchReddit env k = Inr posts"
    and r: "\<exists>job. jobs (discoveryRepo (svc w)) jobId = Some job \<and>
                  ''reddit'' \<in> set (sources (j_config job))"
  shows "map_option j_status
           (getJobStatus jobId (svc (backgroundTask (analyzerRegistry env sched) jobId w)))
         = Some Complete"
proof -
  from r obtain job where job: "jobs (discoveryRepo (svc w)) jobId = Some job"
    "''reddit'' \<in> set (sources (j_config job))" by blast
  let ?w1 = "on_repo (updateJobStatus jobId Discovering None) w"
  have a1: "alive jobId ?w1" using a by (simp add: alive_def)
  let ?cfg = "\<lparr>ac_maxLevels = maxLevels (j_config job),
               ac_maxNodesPerLevel = maxNodesPerLevel (j_config job)\<rparr>"
  from analyzeWithMultiplePlatforms_alive [OF q a1 s job(2), of "niche (j_config job)" ?cfg]
  obtain res w2 where
    w2: "analyzeWithMultiplePlatforms (analyzerRegistry env sched) (niche (j_config job))
           (sources (j_config job)) ?cfg (progressCallback jobId) ?w1 = (Inr res, w2)"
        "alive jobId w2" by blast
  let ?w3 = "storeAnalyzerResults jobId res w2"
  have e3: "jobs (discoveryRepo (svc ?w3)) jobId \<noteq> None"
    using w2(2) by (simp add: storeAnalyzerResults_dom alive_def)
  have run: "runRealDiscovery (analyzerRegistry env sched) jobId w
               = (Inr (), on_repo (updateJobStatus jobId Complete None) ?w3)"
    using job w2 by (simp add: runRealDiscovery_def runDiscoveryWithAnalyzers_def getJob_def Let_def)
  show ?thesis
    using updateJobStatus_status [OF e3, of Complete None "ticks ?w3"]
    by (simp add: backgroundTask_def run getJobStatus_def getJob_def)
qed

lemma analyzeWithMultiplePlatforms_error:
  "analyzeWithMultiplePlatforms reg nic platforms config cb w = (Inl e, w') \<Longrightarrow>
     exn_name e = ''Error''"
  by (auto simp: analyzeWithMultiplePlatforms_def Let_def split: if_splits prod.splits)

lemma runRealDiscovery_error:
  "runRealDiscovery reg jobId w = (Inl e, w') \<Longrightarrow> exn_name e = ''Error''"
  by (auto simp: runRealDiscovery_def runDiscoveryWithAnalyzers_def Let_def
        dest: analyzeWithMultiplePlatforms_error split: option.splits prod.splits sum.splits)

lemma backgroundTask_final_status:
  assumes "jobs (discoveryRepo (svc (backgroundTask reg jobId w))) jobId = Some job"
  shows "j_status job = Complete \<or> j_status job = Error"
proof (cases "runRealDiscovery reg jobId w")
  case (Pair res w1)
  show ?thesis
  proof (cases res)
    case (Inl e)
    then have "exn_name e = ''Error''"
      using Pair runRealDiscovery_error by blast
    then have "jobs (updateJobStatus jobId Error (Some (exn_message e)) (ticks w1)
                       (discoveryRepo (svc w1))) jobId = Some job"
      using assms Pair Inl by (simp add: backgroundTask_def Let_def)
    then show ?thesis
      using updateJobStatus_written by blast
  next
    case (Inr u)
    then obtain w0 where
      "w1 = on_repo (updateJobStatus jobId Complete None) w0"
      using Pair
      by (auto simp: runRealDiscovery_def Let_def split: option.splits prod.splits sum.splits)
    then have "jobs (updateJobStatus jobId Complete None (ticks w0) (discoveryRepo (svc w0)))
                 jobId = Some job"
      using assms Pair Inr by (simp add: backgroundTask_def Let_def)
    then show ?thesis
      using updateJobStatus_written by blast
  qed
qed

lemma expandLevels_barren_any_limit:
  assumes q: "quiet sched jobId" and a: "alive jobId w"
    and le: "of_nat level \<le> ac_maxLevels config" "of_nat level \<le> ac_maxLevels config'"
    and b: "barren env (filter (\<lambda>n. n_level n = level - 1) (allNodes d))"
  shows "expandLevels env sched (progressCallback jobId) config level d w =
         expandLevels env sched (progressCallback jobId) config' level d w"
proof -
  let ?parents = "filter (\<lambda>n. n_level n = level - 1) (allNodes d)"
  let ?n = "length ?parents"
  let ?p1 = "report (of_nat level)
               (Some (snapshot ?n 0 ''Preparing level analysis'' ''fetching'' 0))"
  let ?p2 = "report (of_nat level) None"
  let ?acc0 = "\<lparr>levelNodes = [], levelEdges = [], apiCalls = calls d\<rparr>"
  from callback_alive [OF a, of ?p1] obtain w1 where
    w1: "progressCallback jobId ?p1 w = Inr w1" "alive jobId w1" by blast
  have b': "barren env (map snd (enumerate 0 (take ?n ?parents)))"
    using b by simp
  from expandParents_barren [OF q w1(2) b', of level ?n ?acc0] obtain c w2 where
    e: "expandParents env sched (progressCallback jobId) level ?n
          (enumerate 0 (take ?n ?parents)) ?acc0 w1 = (?acc0\<lparr>apiCalls := c\<rparr>, w2)"
       "alive jobId w2"
    by auto
  from callback_alive [OF e(2), of ?p2] obtain w3 where
    w3: "progressCallback jobId ?p2 w2 = Inr w3" by blast
  have "expandLevels env sched (progressCallback jobId) config level d w
          = (Inr (d\<lparr>calls := c\<rparr>), w3)"
    using le(1) w1 e w3 by (subst expandLevels.simps) (simp add: Let_def)
  moreover have "expandLevels env sched (progressCallback jobId) config' level d w
          = (Inr (d\<lparr>calls := c\<rparr>), w3)"
    using le(2) w1 e w3 by (subst expandLevels.simps) (simp add: Let_def)
  ultimately show ?thesis by simp
qed

section \<open>Natural termination of the expansion loop\<close>

text \<open>
  C7. Take a job run by the Reddit analyzer for which no cancel request arrives. If, at a
  level of the expansion loop within \<open>maxLevels\<close>, every parent expansion fails or returns
  no children, the loop returns right after that level: it yields the nodes and edges found
  so far, has waited once per parent of that level and for nothing else, leaves the job's
  \<open>currentLevel\<close> at that level, and behaves exactly as it would with \<open>maxLevels\<close> equal to that
  level. And, whatever the parent expansions do, once the search succeeded the task ends
  with the job in status \<open>complete\<close>.
\<close>

theorem empty_level_halts_and_job_completes:
  assumes "quiet sched jobId"
    and "alive jobId w"
    and "of_nat level \<le> ac_maxLevels config"
    and "barren env (filter (\<lambda>n. n_level n = level - 1) (allNodes d))"
    and "alive jobId w0"
    and "\<forall>k. \<exists>posts. searchReddit env k = Inr posts"
    and "\<exists>job. jobs (discoveryRepo (svc w0)) jobId = Some job \<and>
               ''reddit'' \<in> set (sources (j_config job))"
  shows "(\<exists>c w'. expandLevels env sched (progressCallback jobId) config level d w
                   = (Inr (d\<lparr>calls := c\<rparr>), w') \<and>
                 ticks w' = ticks w + length (filter (\<lambda>n. n_level n = level - 1) (allNodes d)) \<and>
                 map_option currentLevel (getJobStatus jobId (svc w')) = Some (of_nat level)) \<and>
         expandLevels env sched (progressCallback jobId) config level d w =
           expandLevels env sched (progressCallback jobId)
             (config\<lparr>ac_maxLevels := of_nat level\<rparr>) level d w \<and>
         map_option j_status
           (getJobStatus jobId (svc (backgroundTask (analyzerRegistry env sched) jobId w0)))
           = Some Complete"
proof (intro conjI)
  show "\<exists>c w'. expandLevels env sched (progressCallback jobId) config level d w
                   = (Inr (d\<lparr>calls := c\<rparr>), w') \<and>
                 ticks w' = ticks w + length (filter (\<lambda>n. n_level n = level - 1) (allNodes d)) \<and>
                 map_option currentLevel (getJobStatus jobId (svc w')) = Some (of_nat level)"
    using expandLevels_barren [OF assms(1-4)]
    by (auto simp: getJobStatus_def getJob_def)
  show "expandLevels env sched (progressCallback jobId) config level d w =
          expandLevels env sched (progressCallback jobId)
            (config\<lparr>ac_maxLevels := of_nat level\<rparr>) level d w"
    using expandLevels_barren_any_limit
            [OF assms(1,2,3) _ assms(4), of "config\<lparr>ac_maxLevels := of_nat level\<rparr>"]
    by simp
  show "map_option j_status
          (getJobStatus jobId (svc (backgroundTask (analyzerRegistry env sched) jobId w0)))
          = Some Complete"
    using backgroundTask_completes [OF assms(1) assms(5) assms(6) assms(7)] .
qed

theorem empty_level_halts_and_job_completes_witness:
  "(\<exists>c w'. expandLevels failing_env no_requests (progressCallback ''job-1'')
              \<lparr>ac_maxLevels = 3, ac_maxNodesPerLevel = 5\<rparr> 2 level_one started_world
              = (Inr (level_one\<lparr>calls := c\<rparr>), w') \<and>
            ticks w' = 2 \<and>
            map_option currentLevel (getJobStatus ''job-1'' (svc w')) = Some 2) \<and>
   map_option j_status
     (getJobStatus ''job-1''
        (svc (backgroundTask (analyzerRegistry failing_env no_requests) ''job-1'' started_world)))
     = Some Complete"
proof -
  have q: "quiet no_requests ''job-1''"
    by (simp add: quiet_def no_requests_def)
  have a: "alive ''job-1'' started_world"
    by (simp add: alive_def started_world_def startDiscovery_result createJob_def new_world_def
          new_service_def Let_def)
  have l: "of_nat 2 \<le> ac_maxLevels \<lparr>ac_maxLevels = 3, ac_maxNodesPerLevel = 5\<rparr>"
    by simp
  have p: "filter (\<lambda>n. n_level n = 2 - 1) (allNodes level_one) =
             [namedNode 1 0 sample_sr1 (3 / 10), namedNode 1 1 sample_sr2 (3 / 10)]"
    by (simp add: level_one_def rootNode_def namedNode_def)
  have b: "barren failing_env (filter (\<lambda>n. n_level n = 2 - 1) (allNodes level_one))"
    by (simp add: barren_def failing_env_def)
  have s: "\<forall>k. \<exists>posts. searchReddit failing_env k = Inr posts"
    by (simp add: failing_env_def sample_env_def)
  have j: "\<exists>job. jobs (discoveryRepo (svc started_world)) ''job-1'' = Some job \<and>
                 ''reddit'' \<in> set (sources (j_config job))"
    by (simp add: started_world_def startDiscovery_result createJob_def new_world_def
          new_service_def three_levels_def sample_config_def Let_def)
  have t: "ticks started_world = 0"
    by (simp add: started_world_def new_world_def)
  note inst = empty_level_halts_and_job_completes [OF q a l b a s j]
  have loop:
    "\<exists>c w'. expandLevels failing_env no_requests (progressCallback ''job-1'')
              \<lparr>ac_maxLevels = 3, ac_maxNodesPerLevel = 5\<rparr> 2 level_one started_world
              = (Inr (level_one\<lparr>calls := c\<rparr>), w') \<and>
            ticks w' = ticks started_world +
              length (filter (\<lambda>n. n_level n = 2 - 1) (allNodes level_one)) \<and>
            map_option currentLevel (getJobStatus ''job-1'' (svc w')) = Some (of_nat 2)"
    by (rule inst [THEN conjunct1])
  have final:
    "map_option j_status
       (getJobStatus ''job-1''
          (svc (backgroundTask (analyzerRegistry failing_env no_requests) ''job-1''
                  started_world)))
     = Some Complete"
    by (rule inst [THEN conjunct2, THEN conjunct2])
  from loop have
    "\<exists>c w'. expandLevels failing_env no_requests (progressCallback ''job-1'')
              \<lparr>ac_maxLevels = 3, ac_maxNodesPerLevel = 5\<rparr> 2 level_one started_world
              = (Inr (level_one\<lparr>calls := c\<rparr>), w') \<and>
            ticks w' = 2 \<and>
            map_option currentLevel (getJobStatus ''job-1'' (svc w')) = Some 2"
    unfolding p t by (simp add: numeral_2_eq_2)
  with final show ?thesis by blast
qed

section \<open>A cancel request during the run\<close>

lemma repo_dom [simp]:
  "dom (jobs (updateJobStatus j st err now r)) = dom (jobs r)"
  "dom (jobs (updateJobCurrentLevel j l now r)) = dom (jobs r)"
  "dom (jobs (updateJobSubAnalysis j sa now r)) = dom (jobs r)"
  "dom (jobs (addNode j n now r)) = dom (jobs r)"
  "dom (jobs (addEdge j e now r)) = dom (jobs r)"
  by (auto simp: updateJobStatus_def updateJobCurrentLevel_def updateJobSubAnalysis_def
        addNode_def addEdge_def Let_def split: option.splits if_splits)

lemma cancel_fold_frame:
  "activeJobs (foldl (\<lambda>s j. snd (cancelJob j now s)) s js) = activeJobs s \<and>
   dom (jobs (discoveryRepo (foldl (\<lambda>s j. snd (cancelJob j now s)) s js))) =
     dom (jobs (discoveryRepo s)) \<and>
   cancelledJobs s \<subseteq> cancelledJobs (foldl (\<lambda>s j. snd (cancelJob j now s)) s js)"
proof (induction js arbitrary: s)
  case Nil
  then show ?case by simp
next
  case (Cons j js)
  show ?case
    using Cons.IH [of "snd (cancelJob j now s)"]
    by (auto simp: cancelJob_def)
qed

lemma cancel_fold_hits:
  "jobId \<in> set js \<Longrightarrow> jobId \<in> activeJobs s \<Longrightarrow>
     jobId \<in> cancelledJobs (foldl (\<lambda>s j. snd (cancelJob j now s)) s js)"
proof (induction js arbitrary: s)
  case Nil
  then show ?case by simp
next
  case (Cons j js)
  show ?case
  proof (cases "j = jobId")
    case True
    then have "jobId \<in> cancelledJobs (snd (cancelJob j now s))"
      using Cons.prems(2) by (simp add: cancelJob_def)
    then show ?thesis
      using cancel_fold_frame [of now "snd (cancelJob j now s)" js] by auto
  next
    case False
    then have "jobId \<in> set js" using Cons.prems(1) by simp
    moreover have "jobId \<in> activeJobs (snd (cancelJob j now s))"
      using Cons.prems(2) by (simp add: cancelJob_def)
    ultimately show ?thesis
      using Cons.IH [of "snd (cancelJob j now s)"] by simp
  qed
qed

lemma tracked_io_wait: "tracked sched jobId t0 w \<Longrightarrow> tracked sched jobId t0 (io_wait sched w)"
proof -
  assume t: "tracked sched jobId t0 w"
  let ?s = "foldl (\<lambda>s j. snd (cancelJob j (ticks w) s)) (svc w) (sched (ticks w))"
  note f = cancel_fold_frame [of "ticks w" "svc w" "sched (ticks w)"]
  have h: "jobId \<in> set (sched (ticks w)) \<Longrightarrow> jobId \<in> cancelledJobs ?s"
    using cancel_fold_hits [of jobId "sched (ticks w)" "svc w" "ticks w"] t
    by (simp add: tracked_def)
  have "jobId \<in> cancelledJobs ?s"
    if "t0 \<le> k" "k < Suc (ticks w)" "jobId \<in> set (sched k)" for k
  proof (cases "k = ticks w")
    case True
    then show ?thesis using h that by simp
  next
    case False
    then have "k < ticks w" using that by simp
    then have "jobId \<in> cancelledJobs (svc w)"
      using t that by (auto simp: tracked_def)
    then show ?thesis using f by auto
  qed
  then have c: "\<forall>k. t0 \<le> k \<and> k < Suc (ticks w) \<and> jobId \<in> set (sched k) \<longrightarrow>
                  jobId \<in> cancelledJobs ?s"
    by blast
  have "jobId \<in> activeJobs ?s" "jobId \<in> dom (jobs (discoveryRepo ?s))" "t0 \<le> Suc (ticks w)"
    using t f by (simp_all add: tracked_def)
  with c have "tracked sched jobId t0 \<lparr>svc = ?s, ticks = Suc (ticks w), history = history w @ [?s]\<rparr>"
    unfolding tracked_def by simp
  then show ?thesis
    by (simp add: io_wait_def Let_def)
qed

lemma tracked_callback:
  assumes t: "tracked sched jobId t0 w" and r: "progressCallback jobId p w = Inr w'"
  shows "tracked sched jobId t0 w' \<and> jobId \<notin> cancelledJobs (svc w')"
proof -
  from r have nc: "jobId \<notin> cancelledJobs (svc w)"
    by (auto simp: progressCallback_def split: if_splits)
  with r have w':
    "w' = (case p_subAnalysis p of
             None \<Rightarrow> on_repo (updateJobCurrentLevel jobId (p_currentLevel p)) w
           | Some sa \<Rightarrow> on_repo (updateJobSubAnalysis jobId sa)
                         (on_repo (updateJobCurrentLevel jobId (p_currentLevel p)) w))"
    by (auto simp: progressCallback_def Let_def split: option.splits)
  show ?thesis
    using t nc unfolding w' tracked_def by (simp split: option.splits)
qed

lemma tracked_createNodes:
  "tracked sched jobId t0 w \<Longrightarrow>
   createNodesFromSubredditsWithLLM env sched (progressCallback jobId) level n srs nodes w = (r, w')
     \<Longrightarrow> tracked sched jobId t0 w'"
proof (induction srs arbitrary: nodes w)
  case Nil
  then show ?case by simp
next
  case (Cons x srs)
  obtain index sr where x: "x = (index, sr)" by (cases x)
  show ?case
    using Cons.prems Cons.IH tracked_io_wait tracked_callback
    by (auto simp: x Let_def split: sum.splits list.splits) blast+
qed

lemma tracked_expandParents:
  "tracked sched jobId t0 w \<Longrightarrow>
   expandParents env sched (progressCallback jobId) level n ps acc w = (r, w')
     \<Longrightarrow> tracked sched jobId t0 w'"
proof (induction ps arbitrary: acc w)
  case Nil
  then show ?case by simp
next
  case (Cons x ps)
  obtain parentIndex parentNode where x: "x = (parentIndex, parentNode)" by (cases x)
  show ?case
    using Cons.prems Cons.IH tracked_io_wait tracked_callback
    by (auto simp: x Let_def split: sum.splits if_splits) blast+
qed

lemma tracked_expandLevels:
  "tracked sched jobId t0 w \<Longrightarrow>
   expandLevels env sched (progressCallback jobId) config level d w = (r, w')
     \<Longrightarrow> tracked sched jobId t0 w'"
proof (induction env sched "progressCallback jobId" config level d w arbitrary: r w'
        rule: expandLevels.induct)
  case (1 env sched config level d w)
  show ?case
  proof (cases "of_nat level \<le> ac_maxLevels config")
    case False
    then show ?thesis
      using "1.prems" by (simp add: expandLevels.simps)
  next
    case True
    let ?parents = "filter (\<lambda>n. n_level n = level - 1) (allNodes d)"
    let ?n = "length ?parents"
    let ?p1 = "report (of_nat level)
                 (Some (snapshot ?n 0 ''Preparing level analysis'' ''fetching'' 0))"
    let ?p2 = "report (of_nat level) None"
    show ?thesis
    proof (cases "progressCallback jobId ?p1 w")
      case (Inl e)
      then show ?thesis
        using "1.prems" True by (subst (asm) expandLevels.simps) (simp add: Let_def)
    next
      case (Inr w1)
      then have t1: "tracked sched jobId t0 w1"
        using tracked_callback "1.prems"(1) by blast
      obtain acc w2 where
        e: "expandParents env sched (progressCallback jobId) level ?n
              (enumerate 0 (take ?n ?parents))
              \<lparr>levelNodes = [], levelEdges = [], apiCalls = calls d\<rparr> w1 = (acc, w2)"
        by (cases "expandParents env sched (progressCallback jobId) level ?n
              (enumerate 0 (take ?n ?parents))
              \<lparr>levelNodes = [], levelEdges = [], apiCalls = calls d\<rparr> w1")
      have t2: "tracked sched jobId t0 w2"
        using tracked_expandParents [OF t1 e] .
      show ?thesis
      proof (cases "progressCallback jobId ?p2 w2")
        case (Inl e2)
        then show ?thesis
          using "1.prems"(2) True Inr e t2
          by (subst (asm) expandLevels.simps) (simp add: Let_def)
      next
        case w3: (Inr w3)
        then have t3: "tracked sched jobId t0 w3"
          using tracked_callback t2 by blast
        show ?thesis
        proof (cases "levelNodes acc = []")
          case True
          then show ?thesis
            using "1.prems"(2) \<open>of_nat level \<le> ac_maxLevels config\<close> Inr e w3 t3
            by (subst (asm) expandLevels.simps) (simp add: Let_def)
        next
          case False
          let ?d1 = "\<lparr>allNodes = allNodes d @ levelNodes acc,
                      allEdges = allEdges d @ levelEdges acc, calls = apiCalls acc\<rparr>"
          have "expandLevels env sched (progressCallback jobId) config (Suc level) ?d1 w3
                  = (r, w')"
            using "1.prems"(2) \<open>of_nat level \<le> ac_maxLevels config\<close> Inr e w3 False
            by (subst (asm) expandLevels.simps) (simp add: Let_def)
          then show ?thesis
            using "1.hyps" [of ?parents ?n w1 "(acc, w2)" acc w2 ?d1 w3 r w']
                  \<open>of_nat level \<le> ac_maxLevels config\<close> Inr e w3 False t3
            by simp
        qed
      qed
    qed
  qed
qed

lemma analyzeBody_tracked:
  assumes t: "tracked sched jobId t0 w"
    and r: "analyzeBody env sched nic config (progressCallback jobId) w = (res, w')"
  shows "tracked sched jobId t0 w' \<and> (\<forall>x. res = Inr x \<longrightarrow> jobId \<notin> cancelledJobs (svc w'))"
proof -
  let ?cb = "progressCallback jobId"
  note cb = tracked_callback [where sched = sched and jobId = jobId and ?t0.0 = t0]
  note io = tracked_io_wait [where sched = sched and jobId = jobId and ?t0.0 = t0]
  show ?thesis
  proof (cases "?cb (report 0 None) w")
    case (Inl e)
    then show ?thesis using t r by (auto simp: analyzeBody_def)
  next
    case w1: (Inr w1)
    then have t1: "tracked sched jobId t0 w1" using cb t by blast
    show ?thesis
    proof (cases "?cb (report 0 (Some (snapshot 1 0 ([CHR 0x22] @ nic @ [CHR 0x22])
                                         ''fetching'' 10))) w1")
      case (Inl e)
      then show ?thesis using t1 r w1 by (auto simp: analyzeBody_def)
    next
      case w2: (Inr w2)
      then have t2: "tracked sched jobId t0 w2" using cb t1 by blast
      have t3: "tracked sched jobId t0 (io_wait sched w2)" using io t2 by blast
      show ?thesis
      proof (cases "searchReddit env (ticks w2)")
        case (Inl e)
        then show ?thesis using t3 r w1 w2 by (auto simp: analyzeBody_def Let_def)
      next
        case posts: (Inr posts)
        let ?w4 = "io_wait sched (io_wait sched w2)"
        let ?subs = "extractSubreddits env (ticks (io_wait sched w2)) posts"
        have t4: "tracked sched jobId t0 ?w4" using io t3 by blast
        show ?thesis
        proof (cases "?cb (report 1 (Some (snapshot (length ?subs) 0
                                ''Preparing subreddit analysis'' ''processing'' 0))) ?w4")
          case (Inl e)
          then show ?thesis using t4 r w1 w2 posts by (auto simp: analyzeBody_def Let_def)
        next
          case w5: (Inr w5)
          then have t5: "tracked sched jobId t0 w5" using cb t4 by blast
          obtain r6 w6 where
            c: "createNodesFromSubredditsWithLLM env sched ?cb 1 (length ?subs)
                  (enumerate 0 ?subs) [] w5 = (r6, w6)"
            by (cases "createNodesFromSubredditsWithLLM env sched ?cb 1 (length ?subs)
                  (enumerate 0 ?subs) [] w5")
          have t6: "tracked sched jobId t0 w6" using tracked_createNodes [OF t5 c] .
          show ?thesis
          proof (cases r6)
            case (Inl e)
            then show ?thesis
              using t6 r w1 w2 posts w5 c by (auto simp: analyzeBody_def Let_def)
          next
            case nodes: (Inr level1Nodes)
            show ?thesis
            proof (cases "?cb (report 1 None) w6")
              case (Inl e)
              then show ?thesis
                using t6 r w1 w2 posts w5 c nodes by (auto simp: analyzeBody_def Let_def)
            next
              case w7: (Inr w7)
              then have t7: "tracked sched jobId t0 w7" using cb t6 by blast
              let ?d0 = "\<lparr>allNodes = rootNode nic # level1Nodes,
                          allEdges = map (rootEdge nic) level1Nodes, calls = 1\<rparr>"
              obtain r8 w8 where
                x: "expandLevels env sched ?cb config 2 ?d0 w7 = (r8, w8)"
                by (cases "expandLevels env sched ?cb config 2 ?d0 w7")
              have t8: "tracked sched jobId t0 w8" using tracked_expandLevels [OF t7 x] .
              show ?thesis
              proof (cases r8)
                case (Inl e)
                then show ?thesis
                  using t8 r w1 w2 posts w5 c nodes w7 x by (auto simp: analyzeBody_def Let_def)
              next
                case d: (Inr d)
                show ?thesis
                proof (cases "?cb (report (ac_maxLevels config) None) w8")
                  case (Inl e)
                  then show ?thesis
                    using t8 r w1 w2 posts w5 c nodes w7 x d
                    by (auto simp: analyzeBody_def Let_def)
                next
                  case w9: (Inr w9)
                  then have "tracked sched jobId t0 w9 \<and> jobId \<notin> cancelledJobs (svc w9)"
                    using cb t8 by blast
                  then show ?thesis
                    using r w1 w2 posts w5 c nodes w7 x d w9
                    by (auto simp: analyzeBody_def Let_def)
                qed
              qed
            qed
          qed
        qed
      qed
    qed
  qed
qed

lemma analyze_tracked:
  assumes t: "tracked sched jobId t0 w"
    and r: "analyze env sched nic config (progressCallback jobId) w = (res, w')"
  shows "tracked sched jobId t0 w' \<and> (\<forall>x. res = Inr x \<longrightarrow> jobId \<notin> cancelledJobs (svc w'))"
proof (cases "analyzeBody env sched nic config (progressCallback jobId) w")
  case (Pair r1 w1)
  from analyzeBody_tracked [OF t Pair] have
    b: "tracked sched jobId t0 w1" "\<forall>x. r1 = Inr x \<longrightarrow> jobId \<notin> cancelledJobs (svc w1)"
    by blast+
  show ?thesis
  proof (cases r1)
    case (Inl e)
    show ?thesis
    proof (cases "progressCallback jobId (report 0 None) w1")
      case e': (Inl e')
      then show ?thesis using r Pair Inl b by (auto simp: analyze_def)
    next
      case (Inr w2)
      then have "tracked sched jobId t0 w2" using tracked_callback b(1) by blast
      then show ?thesis using r Pair Inl Inr by (auto simp: analyze_def)
    qed
  next
    case (Inr x)
    then show ?thesis using r Pair b by (auto simp: analyze_def)
  qed
qed

lemma single_reddit_analyzer:
  "length (filter (\<lambda>p. p = ''reddit'') platforms) = 1 \<Longrightarrow>
     concat (map (\<lambda>p. case getAnalyzer (analyzerRegistry env sched) p of
                        None \<Rightarrow> [] | Some a \<Rightarrow> [(p, a)]) platforms)
       = [(''reddit'', analyze env sched)]"
proof -
  assume one: "length (filter (\<lambda>p. p = ''reddit'') platforms) = 1"
  have "concat (map (\<lambda>p. case getAnalyzer (analyzerRegistry env sched) p of
                          None \<Rightarrow> [] | Some a \<Rightarrow> [(p, a)]) ps)
          = map (\<lambda>p. (p, analyze env sched)) (filter (\<lambda>p. p = ''reddit'') ps)" for ps
    by (induction ps) (simp_all add: getAnalyzer_reddit)
  moreover from one obtain x where x: "filter (\<lambda>p. p = ''reddit'') platforms = [x]"
    by (cases "filter (\<lambda>p. p = ''reddit'') platforms") auto
  moreover have "x = ''reddit''"
  proof -
    have "x \<in> set (filter (\<lambda>p. p = ''reddit'') platforms)" using x by simp
    then show ?thesis by simp
  qed
  ultimately show ?thesis by simp
qed

lemma store_ticks [simp]: "ticks (storeAnalyzerResults jobId res w) = ticks w"
proof -
  have n: "ticks (foldl (\<lambda>w n. on_repo (addNode jobId (f n)) w) w ns) = ticks w"
    for f :: "analyzer_node \<Rightarrow> discovery_node" and ns w
    by (induction ns arbitrary: w) simp_all
  have e: "ticks (foldl (\<lambda>w e. on_repo (addEdge jobId (g e)) w) w es) = ticks w"
    for g :: "analyzer_edge \<Rightarrow> discovery_edge" and es w
    by (induction es arbitrary: w) simp_all
  show ?thesis
    by (simp add: storeAnalyzerResults_def Let_def n e)
qed

text \<open>
  With the Reddit analyzer asked once, a cancel request that arrives during any I/O wait of
  the run sends the job to \<open>error\<close>: the last progress report of the analysis always throws,
  and the registry turns what was thrown into an ordinary error.
\<close>

lemma cancel_during_run_ends_in_error:
  assumes job: "jobs (discoveryRepo (svc w)) jobId = Some job"
    and act: "jobId \<in> activeJobs (svc w)"
    and one: "length (filter (\<lambda>p. p = ''reddit'') (sources (j_config job))) = 1"
    and k: "ticks w \<le> k" "k < ticks (backgroundTask (analyzerRegistry env sched) jobId w)"
           "jobId \<in> set (sched k)"
  shows "map_option j_status
           (getJobStatus jobId (svc (backgroundTask (analyzerRegistry env sched) jobId w)))
         = Some Error"
proof -
  let ?reg = "analyzerRegistry env sched"
  let ?w1 = "on_repo (updateJobStatus jobId Discovering None) w"
  let ?cfg = "\<lparr>ac_maxLevels = maxLevels (j_config job),
               ac_maxNodesPerLevel = maxNodesPerLevel (j_config job)\<rparr>"
  have t1: "tracked sched jobId (ticks w) ?w1"
    using job act by (auto simp: tracked_def)
  obtain res w2 where
    a: "analyze env sched (niche (j_config job)) ?cfg (progressCallback jobId) ?w1 = (res, w2)"
    by (cases "analyze env sched (niche (j_config job)) ?cfg (progressCallback jobId) ?w1")
  from analyze_tracked [OF t1 a] have
    t2: "tracked sched jobId (ticks w) w2"
        "\<forall>x. res = Inr x \<longrightarrow> jobId \<notin> cancelledJobs (svc w2)" by blast+
  have ex: "jobId \<in> dom (jobs (discoveryRepo (svc w2)))"
    using t2(1) by (simp add: tracked_def)
  show ?thesis
  proof (cases res)
    case (Inl e)
    let ?msg = "''All analyzers failed. Errors: '' @
                  join ''; '' [''Error in '' @ ''reddit'' @ '' analyzer: '' @ exn_message e]"
    have run: "runRealDiscovery ?reg jobId w =
                 (Inl (Exn ''Error'' ?msg), on_repo (updateJobStatus jobId Error (Some ?msg)) w2)"
      using job a Inl single_reddit_analyzer [OF one, of env sched]
      by (simp add: runRealDiscovery_def runDiscoveryWithAnalyzers_def getJob_def
            analyzeWithMultiplePlatforms_def Let_def)
    have "jobs (updateJobStatus jobId Error (Some ?msg) (ticks w2)
                  (updateJobStatus jobId Error (Some ?msg) (ticks w2) (discoveryRepo (svc w2))))
            jobId \<noteq> None"
      using ex by (auto simp: updateJobStatus_def split: option.splits)
    then show ?thesis
      using updateJobStatus_status
              [of "updateJobStatus jobId Error (Some ?msg) (ticks w2) (discoveryRepo (svc w2))"
                  jobId Error "Some ?msg" "ticks w2"]
      by (simp add: backgroundTask_def run getJobStatus_def getJob_def Let_def)
  next
    case (Inr x)
    then have nc: "jobId \<notin> cancelledJobs (svc w2)" using t2(2) by simp
    have run: "runRealDiscovery ?reg jobId w =
                 (Inr (), on_repo (updateJobStatus jobId Complete None)
                            (storeAnalyzerResults jobId
                               (combineResults [x] (ticks w) (ticks w2)) w2))"
      using job a Inr single_reddit_analyzer [OF one, of env sched]
      by (simp add: runRealDiscovery_def runDiscoveryWithAnalyzers_def getJob_def
            analyzeWithMultiplePlatforms_def Let_def)
    have "ticks (backgroundTask ?reg jobId w) = ticks w2"
      by (simp add: backgroundTask_def run Let_def)
    then have "jobId \<in> cancelledJobs (svc w2)"
      using t2(1) k unfolding tracked_def by auto
    with nc show ?thesis by simp
  qed
qed

section \<open>What every run of the Reddit analyzer preserves\<close>

text \<open>
  A run of the analyzer changes the world only by waiting for I/O and by its progress
  reports: what both of them preserve, the analysis preserves, whether it returns a
  result or throws.
\<close>

lemma frame_createNodes:
  assumes io: "\<And>w. P w \<Longrightarrow> P (io_wait sched w)"
    and cb: "\<And>p w w'. P w \<Longrightarrow> progressCallback jobId p w = Inr w' \<Longrightarrow> P w'"
  shows "P w \<Longrightarrow>
     createNodesFromSubredditsWithLLM env sched (progressCallback jobId) level n srs nodes w
       = (r, w') \<Longrightarrow> P w'"
proof (induction srs arbitrary: nodes w)
  case Nil
  then show ?case by simp
next
  case (Cons x srs)
  obtain index sr where x: "x = (index, sr)" by (cases x)
  show ?case
    using Cons.prems Cons.IH io cb
    by (auto simp: x Let_def split: sum.splits list.splits) blast+
qed

lemma frame_expandParents:
  assumes io: "\<And>w. P w \<Longrightarrow> P (io_wait sched w)"
    and cb: "\<And>p w w'. P w \<Longrightarrow> progressCallback jobId p w = Inr w' \<Longrightarrow> P w'"
  shows "P w \<Longrightarrow>
     expandParents env sched (progressCallback jobId) level n ps acc w = (r, w') \<Longrightarrow> P w'"
proof (induction ps arbitrary: acc w)
  case Nil
  then show ?case by simp
next
  case (Cons x ps)
  obtain parentIndex parentNode where x: "x = (parentIndex, parentNode)" by (cases x)
  show ?case
    using Cons.prems Cons.IH io cb
    by (auto simp: x Let_def split: sum.splits if_splits) blast+
qed

lemma frame_expandLevels:
  "(\<And>w. P w \<Longrightarrow> P (io_wait sched w)) \<Longrightarrow>
   (\<And>p w w'. P w \<Longrightarrow> progressCallback jobId p w = Inr w' \<Longrightarrow> P w') \<Longrightarrow>
   P w \<Longrightarrow>
   expandLevels env sched (progressCallback jobId) config level d w = (r, w') \<Longrightarrow> P w'"
proof (induction env sched "progressCallback jobId" config level d w arbitrary: r w'
        rule: expandLevels.induct)
  case (1 env sched config level d w)
  note io1 = "1.prems"(1) and cb1 = "1.prems"(2)
  show ?case
  proof (cases "of_nat level \<le> ac_maxLevels config")
    case False
    then show ?thesis
      using "1.prems" by (simp add: expandLevels.simps)
  next
    case True
    let ?parents = "filter (\<lambda>n. n_level n = level - 1) (allNodes d)"
    let ?n = "length ?parents"
    let ?p1 = "report (of_nat level)
                 (Some (snapshot ?n 0 ''Preparing level analysis'' ''fetching'' 0))"
    let ?p2 = "report (of_nat level) None"
    show ?thesis
    proof (cases "progressCallback jobId ?p1 w")
      case (Inl e)
      then show ?thesis
        using "1.prems" True by (subst (asm) expandLevels.simps) (simp add: Let_def)
    next
      case (Inr w1)
      then have t1: "P w1"
        using cb1 "1.prems"(3) by blast
      obtain acc w2 where
        e: "expandParents env sched (progressCallback jobId) level ?n
              (enumerate 0 (take ?n ?parents))
              \<lparr>levelNodes = [], levelEdges = [], apiCalls = calls d\<rparr> w1 = (acc, w2)"
        by (cases "expandParents env sched (progressCallback jobId) level ?n
              (enumerate 0 (take ?n ?parents))
              \<lparr>levelNodes = [], levelEdges = [], apiCalls = calls d\<rparr> w1")
      have t2: "P w2"
        using frame_expandParents [of P sched jobId, OF io1 cb1 t1 e] .
      show ?thesis
      proof (cases "progressCallback jobId ?p2 w2")
        case (Inl e2)
        then show ?thesis
          using "1.prems"(4) True Inr e t2
          by (subst (asm) expandLevels.simps) (simp add: Let_def)
      next
        case w3: (Inr w3)
        then have t3: "P w3"
          using cb1 t2 by blast
        show ?thesis
        proof (cases "levelNodes acc = []")
          case True
          then show ?thesis
            using "1.prems"(4) \<open>of_nat level \<le> ac_maxLevels config\<close> Inr e w3 t3
            by (subst (asm) expandLevels.simps) (simp add: Let_def)
        next
          case False
          let ?d1 = "\<lparr>allNodes = allNodes d @ levelNodes acc,
                      allEdges = allEdges d @ levelEdges acc, calls = apiCalls acc\<rparr>"
          have "expandLevels env sched (progressCallback jobId) config (Suc level) ?d1 w3
                  = (r, w')"
            using "1.prems"(4) \<open>of_nat level \<le> ac_maxLevels config\<close> Inr e w3 False
            by (subst (asm) expandLevels.simps) (simp add: Let_def)
          then show ?thesis
            using "1.hyps" [of ?parents ?n w1 "(acc, w2)" acc w2 ?d1 w3 r w']
                  \<open>of_nat level \<le> ac_maxLevels config\<close> Inr e w3 False t3 io1 cb1
            by simp
        qed
      qed
    qed
  qed
qed

lemma frame_analyzeBody:
  assumes io: "\<And>w. P w \<Longrightarrow> P (io_wait sched w)"
    and cb: "\<And>p w w'. P w \<Longrightarrow> progressCallback jobId p w = Inr w' \<Longrightarrow> P w'"
    and t: "P w"
    and r: "analyzeBody env sched nic config (progressCallback jobId) w = (res, w')"
  shows "P w'"
proof -
  let ?cb = "progressCallback jobId"
  show ?thesis
  proof (cases "?cb (report 0 None) w")
    case (Inl e)
    then show ?thesis using t r by (auto simp: analyzeBody_def)
  next
    case w1: (Inr w1)
    then have t1: "P w1" using cb t by blast
    show ?thesis
    proof (cases "?cb (report 0 (Some (snapshot 1 0 ([CHR 0x22] @ nic @ [CHR 0x22])
                                         ''fetching'' 10))) w1")
      case (Inl e)
      then show ?thesis using t1 r w1 by (auto simp: analyzeBody_def)
    next
      case w2: (Inr w2)
      then have t2: "P w2" using cb t1 by blast
      have t3: "P (io_wait sched w2)" using io t2 by blast
      show ?thesis
      proof (cases "searchReddit env (ticks w2)")
        case (Inl e)
        then show ?thesis using t3 r w1 w2 by (auto simp: analyzeBody_def Let_def)
      next
        case posts: (Inr posts)
        let ?w4 = "io_wait sched (io_wait sched w2)"
        let ?subs = "extractSubreddits env (ticks (io_wait sched w2)) posts"
        have t4: "P ?w4" using io t3 by blast
        show ?thesis
        proof (cases "?cb (report 1 (Some (snapshot (length ?subs) 0
                                ''Preparing subreddit analysis'' ''processing'' 0))) ?w4")
          case (Inl e)
          then show ?thesis using t4 r w1 w2 posts by (auto simp: analyzeBody_def Let_def)
        next
          case w5: (Inr w5)
          then have t5: "P w5" using cb t4 by blast
          obtain r6 w6 where
            c: "createNodesFromSubredditsWithLLM env sched ?cb 1 (length ?subs)
                  (enumerate 0 ?subs) [] w5 = (r6, w6)"
            by (cases "createNodesFromSubredditsWithLLM env sched ?cb 1 (length ?subs)
                  (enumerate 0 ?subs) [] w5")
          have t6: "P w6" using frame_createNodes [of P sched jobId, OF io cb t5 c] .
          show ?thesis
          proof (cases r6)
            case (Inl e)
            then show ?thesis
              using t6 r w1 w2 posts w5 c by (auto simp: analyzeBody_def Let_def)
          next
            case nodes: (Inr level1Nodes)
            show ?thesis
            proof (cases "?cb (report 1 None) w6")
              case (Inl e)
              then show ?thesis
                using t6 r w1 w2 posts w5 c nodes by (auto simp: analyzeBody_def Let_def)
            next
              case w7: (Inr w7)
              then have t7: "P w7" using cb t6 by blast
              let ?d0 = "\<lparr>allNodes = rootNode nic # level1Nodes,
                          allEdges = map (rootEdge nic) level1Nodes, calls = 1\<rparr>"
              obtain r8 w8 where
                x: "expandLevels env sched ?cb config 2 ?d0 w7 = (r8, w8)"
                by (cases "expandLevels env sched ?cb config 2 ?d0 w7")
              have t8: "P w8" using frame_expandLevels [of P sched jobId, OF io cb t7 x] .
              show ?thesis
              proof (cases r8)
                case (Inl e)
                then show ?thesis
                  using t8 r w1 w2 posts w5 c nodes w7 x by (auto simp: analyzeBody_def Let_def)
              next
                case d: (Inr d)
                show ?thesis
                proof (cases "?cb (report (ac_maxLevels config) None) w8")
                  case (Inl e)
                  then show ?thesis
                    using t8 r w1 w2 posts w5 c nodes w7 x d
                    by (auto simp: analyzeBody_def Let_def)
                next
                  case w9: (Inr w9)
                  then have "P w9"
                    using cb t8 by blast
                  then show ?thesis
                    using r w1 w2 posts w5 c nodes w7 x d w9
                    by (auto simp: analyzeBody_def Let_def)
                qed
              qed
            qed
          qed
        qed
      qed
    qed
  qed
qed

lemma frame_analyze:
  assumes io: "\<And>w. P w \<Longrightarrow> P (io_wait sched w)"
    and cb: "\<And>p w w'. P w \<Longrightarrow> progressCallback jobId p w = Inr w' \<Longrightarrow> P w'"
    and t: "P w"
    and r: "analyze env sched nic config (progressCallback jobId) w = (res, w')"
  shows "P w'"
proof (cases "analyzeBody env sched nic config (progressCallback jobId) w")
  case (Pair r1 w1)
  have b: "P w1"
    using frame_analyzeBody [of P sched jobId, OF io cb t Pair] .
  show ?thesis
  proof (cases r1)
    case (Inl e)
    show ?thesis
    proof (cases "progressCallback jobId (report 0 None) w1")
      case e': (Inl e')
      then show ?thesis using r Pair Inl b by (auto simp: analyze_def)
    next
      case (Inr w2)
      then have "P w2" using cb b by blast
      then show ?thesis using r Pair Inl Inr by (auto simp: analyze_def)
    qed
  next
    case (Inr x)
    then show ?thesis using r Pair b by (auto simp: analyze_def)
  qed
qed

lemma frame_runAnalyzers:
  assumes io: "\<And>w. P w \<Longrightarrow> P (io_wait sched w)"
    and cb: "\<And>p w w'. P w \<Longrightarrow> progressCallback jobId p w = Inr w' \<Longrightarrow> P w'"
  shows "P w \<Longrightarrow> \<forall>x \<in> set as. snd x = analyze env sched \<Longrightarrow>
     runAnalyzers as nic config (progressCallback jobId) w = (rs, errs, w') \<Longrightarrow> P w'"
proof (induction as arbitrary: w rs errs w')
  case Nil
  then show ?case by simp
next
  case (Cons x as)
  obtain name a where x: "x = (name, a)" by (cases x)
  with Cons.prems have a: "a = analyze env sched" by simp
  obtain res w1 where
    r: "analyze env sched nic config (progressCallback jobId) w = (res, w1)"
    by (cases "analyze env sched nic config (progressCallback jobId) w")
  have p1: "P w1"
    using frame_analyze [of P sched jobId, OF io cb Cons.prems(1) r] .
  obtain rs1 errs1 w2 where
    rest: "runAnalyzers as nic config (progressCallback jobId) w1 = (rs1, errs1, w2)"
    by (cases "runAnalyzers as nic config (progressCallback jobId) w1") auto
  have "P w2"
    using Cons.IH [OF p1 _ rest] Cons.prems(2) by simp
  moreover have "w' = w2"
    using Cons.prems(3) r rest by (cases res) (simp_all add: x a)
  ultimately show ?case by simp
qed

lemma frame_registry:
  assumes io: "\<And>w. P w \<Longrightarrow> P (io_wait sched w)"
    and cb: "\<And>p w w'. P w \<Longrightarrow> progressCallback jobId p w = Inr w' \<Longrightarrow> P w'"
    and t: "P w"
    and r: "analyzeWithMultiplePlatforms (analyzerRegistry env sched) nic platforms config
              (progressCallback jobId) w = (res, w')"
  shows "P w'"
proof -
  let ?as = "concat (map (\<lambda>p. case getAnalyzer (analyzerRegistry env sched) p of
                                 None \<Rightarrow> [] | Some a \<Rightarrow> [(p, a)]) platforms)"
  obtain rs errs w1 where
    run: "runAnalyzers ?as nic config (progressCallback jobId) w = (rs, errs, w1)"
    by (cases "runAnalyzers ?as nic config (progressCallback jobId) w") auto
  have "P w1"
    using frame_runAnalyzers [of P sched jobId, OF io cb t reddit_analyzers run] .
  moreover have "w' = w \<or> w' = w1"
    using r run by (auto simp: analyzeWithMultiplePlatforms_def Let_def split: if_splits)
  ultimately show ?thesis using t by blast
qed

section \<open>What an observer of the service sees\<close>

lemma observed_io_wait:
  assumes c: "\<And>j now s. Q s \<Longrightarrow> Q (snd (cancelJob j now s))"
  shows "observed Q n w \<Longrightarrow> observed Q n (io_wait sched w)"
proof -
  assume o: "observed Q n w"
  have f: "Q s \<Longrightarrow> Q (foldl (\<lambda>s j. snd (cancelJob j now s)) s js)" for s js now
    by (induction js arbitrary: s) (simp_all add: c)
  let ?s = "foldl (\<lambda>s j. snd (cancelJob j (ticks w) s)) (svc w) (sched (ticks w))"
  have q: "Q ?s" using o f by (simp add: observed_def)
  have "set (drop n (history w @ [?s])) \<subseteq> insert ?s (set (drop n (history w)))"
    using set_drop_subset [of "n - length (history w)" "[?s]"] by auto
  then show ?thesis
    using o q by (auto simp: observed_def io_wait_def Let_def)
qed

lemma observed_on_repo:
  assumes "\<And>s now. Q s \<Longrightarrow> Q (s\<lparr>discoveryRepo := f now (discoveryRepo s)\<rparr>)"
  shows "observed Q n w \<Longrightarrow> observed Q n (on_repo f w)"
  using assms by (simp add: observed_def on_repo_def)

lemma observed_callback:
  assumes l: "\<And>s x now. Q s \<Longrightarrow>
                Q (s\<lparr>discoveryRepo := updateJobCurrentLevel jobId x now (discoveryRepo s)\<rparr>)"
    and a: "\<And>s x now. Q s \<Longrightarrow>
                Q (s\<lparr>discoveryRepo := updateJobSubAnalysis jobId x now (discoveryRepo s)\<rparr>)"
  shows "observed Q n w \<Longrightarrow> progressCallback jobId p w = Inr w' \<Longrightarrow> observed Q n w'"
proof -
  assume o: "observed Q n w" and r: "progressCallback jobId p w = Inr w'"
  let ?w1 = "on_repo (updateJobCurrentLevel jobId (p_currentLevel p)) w"
  have o1: "observed Q n ?w1"
    using observed_on_repo [of Q "updateJobCurrentLevel jobId (p_currentLevel p)" n w] l o
    by blast
  have o2: "observed Q n (on_repo (updateJobSubAnalysis jobId x) ?w1)" for x
    using observed_on_repo [of Q "updateJobSubAnalysis jobId x" n ?w1] a o1 by blast
  from r have "w' = ?w1 \<or> (\<exists>x. w' = on_repo (updateJobSubAnalysis jobId x) ?w1)"
    by (auto simp: progressCallback_def Let_def split: if_splits option.splits)
  with o1 o2 show ?thesis by blast
qed

lemma store_history [simp]: "history (storeAnalyzerResults jobId res w) = history w"
proof -
  have n: "history (foldl (\<lambda>w x. on_repo (addNode jobId (f x)) w) w xs) = history w"
    for f :: "analyzer_node \<Rightarrow> discovery_node" and xs w
    by (induction xs arbitrary: w) (simp_all add: on_repo_def)
  have e: "history (foldl (\<lambda>w x. on_repo (addEdge jobId (g x)) w) w xs) = history w"
    for g :: "analyzer_edge \<Rightarrow> discovery_edge" and xs w
    by (induction xs arbitrary: w) (simp_all add: on_repo_def)
  show ?thesis
    by (simp add: storeAnalyzerResults_def Let_def n e)
qed

lemma store_svc:
  assumes n: "\<And>s x now. Q s \<Longrightarrow> Q (s\<lparr>discoveryRepo := addNode jobId x now (discoveryRepo s)\<rparr>)"
    and e: "\<And>s x now. Q s \<Longrightarrow> Q (s\<lparr>discoveryRepo := addEdge jobId x now (discoveryRepo s)\<rparr>)"
  shows "Q (svc w) \<Longrightarrow> Q (svc (storeAnalyzerResults jobId res w))"
proof -
  have ns: "Q (svc w) \<Longrightarrow> Q (svc (foldl (\<lambda>w x. on_repo (addNode jobId (f x)) w) w xs))"
    for f :: "analyzer_node \<Rightarrow> discovery_node" and xs w
    by (induction xs arbitrary: w) (simp_all add: on_repo_def n)
  have es: "Q (svc w) \<Longrightarrow> Q (svc (foldl (\<lambda>w x. on_repo (addEdge jobId (g x)) w) w xs))"
    for g :: "analyzer_edge \<Rightarrow> discovery_edge" and xs w
    by (induction xs arbitrary: w) (simp_all add: on_repo_def e)
  assume "Q (svc w)"
  then show ?thesis
    by (simp add: storeAnalyzerResults_def Let_def ns es)
qed

text \<open>
  The whole task. \<open>Q\<close> is kept by cancel requests, by progress reports and by the move to
  \<open>discovering\<close>; from the end of the analysis on, the weaker \<open>Q'\<close> is kept by what the task
  still writes, and the clean-up restores \<open>Q\<close>.
\<close>

lemma observed_backgroundTask:
  assumes c: "\<And>j now s. Q s \<Longrightarrow> Q (snd (cancelJob j now s))"
    and l: "\<And>s x now. Q s \<Longrightarrow>
              Q (s\<lparr>discoveryRepo := updateJobCurrentLevel jobId x now (discoveryRepo s)\<rparr>)"
    and a: "\<And>s x now. Q s \<Longrightarrow>
              Q (s\<lparr>discoveryRepo := updateJobSubAnalysis jobId x now (discoveryRepo s)\<rparr>)"
    and d: "\<And>s now. Q s \<Longrightarrow>
              Q (s\<lparr>discoveryRepo := updateJobStatus jobId Discovering None now (discoveryRepo s)\<rparr>)"
    and q: "\<And>s. Q s \<Longrightarrow> Q' s"
    and u: "\<And>s st err now. Q' s \<Longrightarrow>
              Q' (s\<lparr>discoveryRepo := updateJobStatus jobId st err now (discoveryRepo s)\<rparr>)"
    and n: "\<And>s x now. Q' s \<Longrightarrow> Q' (s\<lparr>discoveryRepo := addNode jobId x now (discoveryRepo s)\<rparr>)"
    and e: "\<And>s x now. Q' s \<Longrightarrow> Q' (s\<lparr>discoveryRepo := addEdge jobId x now (discoveryRepo s)\<rparr>)"
    and f: "\<And>s. Q' s \<Longrightarrow> Q (s\<lparr>activeJobs := activeJobs s - {jobId},
                                   cancelledJobs := cancelledJobs s - {jobId}\<rparr>)"
    and o: "observed Q n w"
  shows "observed Q n (backgroundTask (analyzerRegistry env sched) jobId w)"
proof -
  let ?reg = "analyzerRegistry env sched"
  define T where "T w \<longleftrightarrow> Q' (svc w) \<and> (\<forall>s \<in> set (drop n (history w)). Q s)"
    for w :: world
  have T_on: "T w \<Longrightarrow> T (on_repo (updateJobStatus jobId st err) w)" for w st err
    using u by (simp add: T_def on_repo_def)
  have T_store: "T w \<Longrightarrow> T (storeAnalyzerResults jobId res w)" for w res
    using store_svc [of Q' jobId w res, OF n e] by (simp add: T_def)
  have T_end: "T w \<Longrightarrow>
     observed Q n (w\<lparr>svc := (svc w)\<lparr>activeJobs := activeJobs (svc w) - {jobId},
                                      cancelledJobs := cancelledJobs (svc w) - {jobId}\<rparr>\<rparr>)" for w
    using f by (simp add: T_def observed_def)
  have T_start: "observed Q n w \<Longrightarrow> T w" for w
    using q by (simp add: T_def observed_def)
  show ?thesis
  proof (cases "getJob jobId (discoveryRepo (svc w))")
    case None
    then have run: "runRealDiscovery ?reg jobId w = (Inl (Exn ''Error'' ''Job not found''), w)"
      by (simp add: runRealDiscovery_def)
    show ?thesis
      using T_end [OF T_on [OF T_start [OF o]]]
      by (simp add: backgroundTask_def run Let_def)
  next
    case (Some job)
    let ?w1 = "on_repo (updateJobStatus jobId Discovering None) w"
    let ?cfg = "\<lparr>ac_maxLevels = maxLevels (j_config job),
                 ac_maxNodesPerLevel = maxNodesPerLevel (j_config job)\<rparr>"
    have o1: "observed Q n ?w1"
      using observed_on_repo [of Q "updateJobStatus jobId Discovering None" n w] d o by blast
    obtain res w2 where
      an: "analyzeWithMultiplePlatforms ?reg (niche (j_config job)) (sources (j_config job))
             ?cfg (progressCallback jobId) ?w1 = (res, w2)"
      by (cases "analyzeWithMultiplePlatforms ?reg (niche (j_config job))
                   (sources (j_config job)) ?cfg (progressCallback jobId) ?w1")
    have o2: "observed Q n w2"
      using frame_registry [of "observed Q n" sched jobId ?w1 env _ _ ?cfg res w2,
              OF observed_io_wait [of Q n _ sched, OF c]
                 observed_callback [of Q jobId n, OF l a] o1 an] .
    show ?thesis
    proof (cases res)
      case (Inl ex)
      have run: "runRealDiscovery ?reg jobId w =
                   (Inl ex, on_repo (updateJobStatus jobId Error (Some (exn_message ex))) w2)"
        using Some an Inl
        by (simp add: runRealDiscovery_def runDiscoveryWithAnalyzers_def Let_def)
      show ?thesis
        using T_end [OF T_on [OF T_on [OF T_start [OF o2]]]]
        by (simp add: backgroundTask_def run Let_def)
    next
      case (Inr cr)
      have run: "runRealDiscovery ?reg jobId w =
                   (Inr (), on_repo (updateJobStatus jobId Complete None)
                              (storeAnalyzerResults jobId cr w2))"
        using Some an Inr
        by (simp add: runRealDiscovery_def runDiscoveryWithAnalyzers_def Let_def)
      show ?thesis
        using T_end [OF T_on [OF T_store [OF T_start [OF o2]]]]
        by (simp add: backgroundTask_def run Let_def)
    qed
  qed
qed

section \<open>Cancellation of a running job\<close>

lemmas run_simps =
  createJob_def getJob_def updateJobStatus_def updateJobCurrentLevel_def
  updateJobSubAnalysis_def addNode_def addEdge_def getJobGraph_def empty_repo_def
  new_service_def startDiscovery_def getJobStatus_def cancelJob_def io_wait_def on_repo_def
  progressCallback_def new_world_def
  platform_def report_def snapshot_def nicheSpecificity_def rootNode_def levelType_def
  subredditData_def llmNode_def namedNode_def subredditNameOf_def topicNode_def topicEdge_def
  rootEdge_def analyzeBody_def analyze_def expandLevels.simps show_nat.simps digit_char_def
  spread_def register_def getAnalyzer_def analyzeWithMultiplePlatforms_def map_set_def
  runDiscoveryWithAnalyzers_def runRealDiscovery_def backgroundTask_def analyzerRegistry_def
  discover_def Let_def

lemmas sample_simps =
  sample_config_def sample_env_def sample_sr1_def sample_sr2_def cancel_at_def no_requests_def

text \<open>
  C2 at the job of \<open>sample_config\<close> with two sub-niches, cancelled while the first of them
  is being expanded at level 2. An observer sees \<open>discovering\<close> during the first four waits
  and \<open>cancelled\<close> during the fifth; no further expansion is started; and the task ends with
  the job in status \<open>error\<close>.
\<close>

theorem cancel_mid_level_ends_in_error:
  "map (map_option j_status \<circ> getJobStatus ''job-1'') (history cancelled_mid_level) =
     [Some Discovering, Some Discovering, Some Discovering, Some Discovering, Some Cancelled] \<and>
   ticks cancelled_mid_level = 5 \<and>
   map_option j_status (getJobStatus ''job-1'' (svc cancelled_mid_level)) = Some Error \<and>
   map_option j_error (getJobStatus ''job-1'' (svc cancelled_mid_level)) =
     Some (Some ''All analyzers failed. Errors: Error in reddit analyzer: Discovery job was cancelled'')"
  by (simp add: cancelled_mid_level_def run_simps sample_simps)

text \<open>
  C5 at the same job cancelled while the subreddit descriptions are fetched. During that
  wait the record holds the terminal status \<open>cancelled\<close> with the error text of the cancel
  request; when the task has ended the same record holds \<open>error\<close> and another error text.
  The record was written after it had reached a terminal status, by the failure handlers
  of \<open>runRealDiscovery\<close> and of \<open>startDiscovery\<close>.
\<close>

theorem cancelled_status_overwritten:
  "map_option j_status (getJobStatus ''job-1'' (history cancelled_early ! 1)) = Some Cancelled \<and>
   map_option j_error (getJobStatus ''job-1'' (history cancelled_early ! 1)) =
     Some (Some ''Job was cancelled by user'') \<and>
   map_option j_status (getJobStatus ''job-1'' (svc cancelled_early)) = Some Error \<and>
   map_option j_error (getJobStatus ''job-1'' (svc cancelled_early)) =
     Some (Some ''All analyzers failed. Errors: Error in reddit analyzer: Discovery job was cancelled'')"
  by (simp add: cancelled_early_def run_simps sample_simps)

section \<open>The stream of a cancelled job\<close>

lemma combineResults_single:
  "c_nodes (combineResults [\<lparr>r_nodes = [n], r_edges = [], r_metadata = md\<rparr>] s e) =
     [n\<lparr>n_id := newNodeId n 0\<rparr>]"
  "c_edges (combineResults [\<lparr>r_nodes = [n], r_edges = [], r_metadata = md\<rparr>] s e) = []"
  by (simp_all add: combineResults_def dedupNodes_def dedupNodeStep_def map_set_def
        renumberNodes_def dedupEdges_def remapEdges_def Let_def)

lemmas stream_simps =
  streamSession_def streamConnect_def pollTick_def reply_write_def reply_end_def
  replayWhilePolling_def doneEvent_def nodesByLevel_def edgeCountOfLevel_def levelsOf_def
  terminal_event_def toDiscoveryNode_def toDiscoveryEdge_def storeAnalyzerResults_def
  newNodeId_def

text \<open>
  While the record of a job says \<open>cancelled\<close>, a poll writes a progress event and nothing
  else (lemma \<open>cancelled_polls_emit_no_terminal_event\<close>); what ends the stream is the status
  that the task writes over \<open>cancelled\<close> when it ends. For the job cancelled while the
  subreddit descriptions are fetched that status is \<open>error\<close>, and the error event carries
  the text of the failure handler.
\<close>

lemma cancelled_early_stream_ends_with_error:
  "filter terminal_event
     (events (streamSession ''job-1'' (history cancelled_early ! 0)
                (tl (history cancelled_early) @ [svc cancelled_early])))
     = [ErrorEvent
          ''All analyzers failed. Errors: Error in reddit analyzer: Discovery job was cancelled''
          ''DISCOVERY_ERROR''] \<and>
   ended (streamSession ''job-1'' (history cancelled_early ! 0)
            (tl (history cancelled_early) @ [svc cancelled_early]))"
  by (simp add: cancelled_early_def run_simps sample_simps stream_simps)

text \<open>
  C6 at a job whose request names the platform twice, cancelled after the first analysis
  has returned and while the second one waits for its search results. The record is in
  status \<open>cancelled\<close> during the last two waits of the task. The second analysis fails at its
  next progress report, the registry keeps the result of the first, and the task ends with
  the job in status \<open>complete\<close>. A client that connected during the first wait and whose
  polls saw every later state of the service receives one terminal event, which is
  \<open>done\<close>: no error event is written on the stream of this cancelled job.
\<close>

theorem cancelled_job_stream_ends_with_done:
  "map (map_option j_status \<circ> getJobStatus ''job-1'') (history cancelled_second_analysis) =
     [Some Discovering, Some Discovering, Some Cancelled, Some Cancelled] \<and>
   map_option j_status (getJobStatus ''job-1'' (svc cancelled_second_analysis)) = Some Complete \<and>
   filter terminal_event
     (events (streamSession ''job-1'' (history cancelled_second_analysis ! 0)
                (tl (history cancelled_second_analysis) @ [svc cancelled_second_analysis])))
     = [Done 1 0 1] \<and>
   ended (streamSession ''job-1'' (history cancelled_second_analysis ! 0)
            (tl (history cancelled_second_analysis) @ [svc cancelled_second_analysis]))"
  by (simp add: cancelled_second_analysis_def run_simps sample_simps bare_reddit_def
        twice_config_def combineResults_single stream_simps)

section \<open>Start requests\<close>

lemma holds_job_kept:
  "holds_job uuid body s \<Longrightarrow> holds_job uuid body (snd (cancelJob j now s))"
  "holds_job uuid body s \<Longrightarrow>
     holds_job uuid body (s\<lparr>discoveryRepo := updateJobCurrentLevel j l now (discoveryRepo s)\<rparr>)"
  "holds_job uuid body s \<Longrightarrow>
     holds_job uuid body (s\<lparr>discoveryRepo := updateJobSubAnalysis j sa now (discoveryRepo s)\<rparr>)"
  "holds_job uuid body s \<Longrightarrow>
     holds_job uuid body (s\<lparr>discoveryRepo := updateJobStatus j st err now (discoveryRepo s)\<rparr>)"
  "holds_job uuid body s \<Longrightarrow>
     holds_job uuid body (s\<lparr>discoveryRepo := addNode j x now (discoveryRepo s)\<rparr>)"
  "holds_job uuid body s \<Longrightarrow>
     holds_job uuid body (s\<lparr>discoveryRepo := addEdge j y now (discoveryRepo s)\<rparr>)"
  "holds_job uuid body s \<Longrightarrow>
     holds_job uuid body (s\<lparr>activeJobs := A, cancelledJobs := C\<rparr>)"
  by (auto simp: holds_job_def getJobStatus_def getJob_def cancelJob_def updateJobStatus_def
        updateJobCurrentLevel_def updateJobSubAnalysis_def addNode_def addEdge_def Let_def
        split: option.splits)

lemma discover_holds_job:
  "\<exists>w'. discover (analyzerRegistry env sched) body uuid w =
          (\<lparr>sr_jobId = uuid, sr_status = ''starting'',
            sr_message = ''Discovery job started successfully''\<rparr>, w') \<and>
        observed (holds_job uuid body) (length (history w)) w'"
proof -
  let ?s = "snd (startDiscovery body uuid (ticks w) (svc w))"
  have "holds_job uuid body ?s"
    by (simp add: startDiscovery_result createJob_def holds_job_def getJobStatus_def getJob_def
          Let_def)
  then have o: "observed (holds_job uuid body) (length (history w)) (w\<lparr>svc := ?s\<rparr>)"
    by (simp add: observed_def)
  have "observed (holds_job uuid body) (length (history w))
          (backgroundTask (analyzerRegistry env sched) uuid (w\<lparr>svc := ?s\<rparr>))"
    by (rule observed_backgroundTask [where Q' = "holds_job uuid body", OF _ _ _ _ _ _ _ _ _ o])
       (simp_all add: holds_job_kept)
  then show ?thesis
    by (simp add: discover_def startDiscovery_result)
qed

text \<open>
  C8, as the code has it. A start request is answered with a validation failure, and
  nothing is changed, exactly when the niche is empty, \<open>maxLevels\<close> is outside 1..10,
  \<open>maxNodesPerLevel\<close> is outside 1..100, or the sources list is empty. Every other request
  is answered with status "starting", and a job with the id of the reply and the
  configuration of the request is created: the store holds its record during every I/O
  wait of the task and when the task has ended, whatever Reddit answers and whatever
  cancel requests arrive.
\<close>

theorem postDiscover_validation:
  "(niche body = [] \<or> maxLevels body < 1 \<or> 10 < maxLevels body \<or>
    maxNodesPerLevel body < 1 \<or> 100 < maxNodesPerLevel body \<or> sources body = []
      \<longrightarrow> postDiscover (analyzerRegistry env sched) body uuid w = (ValidationError400, w)) \<and>
   (niche body \<noteq> [] \<and> 1 \<le> maxLevels body \<and> maxLevels body \<le> 10 \<and>
    1 \<le> maxNodesPerLevel body \<and> maxNodesPerLevel body \<le> 100 \<and> sources body \<noteq> []
      \<longrightarrow> (\<exists>w'. postDiscover (analyzerRegistry env sched) body uuid w =
                   (Ok200 \<lparr>sr_jobId = uuid, sr_status = ''starting'',
                           sr_message = ''Discovery job started successfully''\<rparr>, w') \<and>
                 holds_job uuid body (svc w') \<and>
                 (\<forall>s \<in> set (drop (length (history w)) (history w')). holds_job uuid body s)))"
proof (intro conjI impI)
  assume "niche body = [] \<or> maxLevels body < 1 \<or> 10 < maxLevels body \<or>
          maxNodesPerLevel body < 1 \<or> 100 < maxNodesPerLevel body \<or> sources body = []"
  then have "\<not> DiscoveryConfigSchema body"
    by (auto simp: DiscoveryConfigSchema_def)
  then show "postDiscover (analyzerRegistry env sched) body uuid w = (ValidationError400, w)"
    by (simp add: postDiscover_def)
next
  assume "niche body \<noteq> [] \<and> 1 \<le> maxLevels body \<and> maxLevels body \<le> 10 \<and>
          1 \<le> maxNodesPerLevel body \<and> maxNodesPerLevel body \<le> 100 \<and> sources body \<noteq> []"
  then have ok: "DiscoveryConfigSchema body"
    by (cases "niche body"; cases "sources body") (auto simp: DiscoveryConfigSchema_def)
  from discover_holds_job [of env sched body uuid w] obtain w' where
    "discover (analyzerRegistry env sched) body uuid w =
       (\<lparr>sr_jobId = uuid, sr_status = ''starting'',
         sr_message = ''Discovery job started successfully''\<rparr>, w')"
    "observed (holds_job uuid body) (length (history w)) w'"
    by blast
  then show "\<exists>w'. postDiscover (analyzerRegistry env sched) body uuid w =
                   (Ok200 \<lparr>sr_jobId = uuid, sr_status = ''starting'',
                           sr_message = ''Discovery job started successfully''\<rparr>, w') \<and>
                 holds_job uuid body (svc w') \<and>
                 (\<forall>s \<in> set (drop (length (history w)) (history w')). holds_job uuid body s)"
    using ok by (simp add: postDiscover_def observed_def)
qed

theorem postDiscover_validation_witness:
  "postDiscover (analyzerRegistry sample_env no_requests)
     (sample_config\<lparr>maxNodesPerLevel := 0\<rparr>) ''job-1'' new_world
     = (ValidationError400, new_world) \<and>
   fst (postDiscover (analyzerRegistry sample_env no_requests) sample_config ''job-1'' new_world)
     = Ok200 \<lparr>sr_jobId = ''job-1'', sr_status = ''starting'',
              sr_message = ''Discovery job started successfully''\<rparr> \<and>
   holds_job ''job-1'' sample_config
     (svc (snd (postDiscover (analyzerRegistry sample_env no_requests) sample_config ''job-1''
                  new_world)))"
proof -
  have bad: "postDiscover (analyzerRegistry sample_env no_requests)
               (sample_config\<lparr>maxNodesPerLevel := 0\<rparr>) ''job-1'' new_world
               = (ValidationError400, new_world)"
    using postDiscover_validation
            [of "sample_config\<lparr>maxNodesPerLevel := 0\<rparr>" sample_env no_requests "''job-1''"
                new_world]
    by (simp add: sample_config_def)
  obtain w' where
    "postDiscover (analyzerRegistry sample_env no_requests) sample_config ''job-1'' new_world =
       (Ok200 \<lparr>sr_jobId = ''job-1'', sr_status = ''starting'',
               sr_message = ''Discovery job started successfully''\<rparr>, w')"
    "holds_job ''job-1'' sample_config (svc w')"
    using postDiscover_validation [of sample_config sample_env no_requests "''job-1''" new_world]
    by (auto simp: sample_config_def)
  with bad show ?thesis by simp
qed

text \<open>
  A request that passes the four checks of the claim (niche not empty, both limits
  positive, sources not empty) and is rejected all the same: \<open>maxLevels = 11\<close>.
\<close>

theorem postDiscover_rejects_eleven_levels:
  "niche (sample_config\<lparr>maxLevels := 11\<rparr>) \<noteq> [] \<and>
   0 < maxLevels (sample_config\<lparr>maxLevels := 11\<rparr>) \<and>
   0 < maxNodesPerLevel (sample_config\<lparr>maxLevels := 11\<rparr>) \<and>
   sources (sample_config\<lparr>maxLevels := 11\<rparr>) \<noteq> [] \<and>
   postDiscover (analyzerRegistry sample_env no_requests) (sample_config\<lparr>maxLevels := 11\<rparr>)
     ''job-1'' new_world
     = (ValidationError400, new_world)"
  by (simp add: sample_config_def postDiscover_def DiscoveryConfigSchema_def)

section \<open>Cancel requests against finished and unknown jobs\<close>

lemma guarded_cancelJob: "guarded s \<Longrightarrow> guarded (snd (cancelJob j now s))"
  by (auto simp: guarded_def cancelJob_def updateJobStatus_def split: option.splits)

lemma guarded_progress:
  "guarded s \<Longrightarrow>
     guarded (s\<lparr>discoveryRepo := updateJobCurrentLevel j l now (discoveryRepo s)\<rparr>)"
  "guarded s \<Longrightarrow>
     guarded (s\<lparr>discoveryRepo := updateJobSubAnalysis j sa now (discoveryRepo s)\<rparr>)"
  "guarded s \<Longrightarrow>
     guarded (s\<lparr>discoveryRepo := updateJobStatus j Discovering err now (discoveryRepo s)\<rparr>)"
  by (auto simp: guarded_def updateJobCurrentLevel_def updateJobSubAnalysis_def
        updateJobStatus_def split: option.splits)

lemma guarded_but_one:
  "guarded (s\<lparr>activeJobs := activeJobs s - {j}\<rparr>) \<Longrightarrow>
     guarded (s\<lparr>discoveryRepo := updateJobStatus j st err now (discoveryRepo s),
               activeJobs := activeJobs s - {j}\<rparr>)"
  "guarded (s\<lparr>activeJobs := activeJobs s - {j}\<rparr>) \<Longrightarrow>
     guarded (s\<lparr>discoveryRepo := addNode j x now (discoveryRepo s),
               activeJobs := activeJobs s - {j}\<rparr>)"
  "guarded (s\<lparr>activeJobs := activeJobs s - {j}\<rparr>) \<Longrightarrow>
     guarded (s\<lparr>discoveryRepo := addEdge j y now (discoveryRepo s),
               activeJobs := activeJobs s - {j}\<rparr>)"
  by (auto simp: guarded_def updateJobStatus_def addNode_def addEdge_def Let_def
        split: option.splits)

lemma guarded_startDiscovery: "guarded s \<Longrightarrow> guarded (snd (startDiscovery body uuid now s))"
  by (auto simp: guarded_def startDiscovery_result createJob_def Let_def)

lemma guarded_backgroundTask:
  assumes "observed guarded n w"
  shows "observed guarded n (backgroundTask (analyzerRegistry env sched) jobId w)"
proof (rule observed_backgroundTask
         [where Q' = "\<lambda>s. guarded (s\<lparr>activeJobs := activeJobs s - {jobId}\<rparr>)",
          OF _ _ _ _ _ _ _ _ _ assms])
  show "guarded (snd (cancelJob j now s))" if "guarded s" for j now s
    using that by (rule guarded_cancelJob)
  show "guarded (s\<lparr>discoveryRepo := updateJobCurrentLevel jobId x now (discoveryRepo s)\<rparr>)"
    if "guarded s" for s x now
    using that by (rule guarded_progress)
  show "guarded (s\<lparr>discoveryRepo := updateJobSubAnalysis jobId x now (discoveryRepo s)\<rparr>)"
    if "guarded s" for s x now
    using that by (rule guarded_progress)
  show "guarded (s\<lparr>discoveryRepo := updateJobStatus jobId Discovering None now (discoveryRepo s)\<rparr>)"
    if "guarded s" for s now
    using that by (rule guarded_progress)
  show "guarded (s\<lparr>activeJobs := activeJobs s - {jobId}\<rparr>)" if "guarded s" for s
    using that by (auto simp: guarded_def)
  show "guarded (s\<lparr>discoveryRepo := updateJobStatus jobId st err now (discoveryRepo s)\<rparr>
                  \<lparr>activeJobs := activeJobs (s\<lparr>discoveryRepo :=
                       updateJobStatus jobId st err now (discoveryRepo s)\<rparr>) - {jobId}\<rparr>)"
    if "guarded (s\<lparr>activeJobs := activeJobs s - {jobId}\<rparr>)" for s st err now
    using guarded_but_one(1) [OF that] by simp
  show "guarded (s\<lparr>discoveryRepo := addNode jobId x now (discoveryRepo s)\<rparr>
                  \<lparr>activeJobs := activeJobs (s\<lparr>discoveryRepo :=
                       addNode jobId x now (discoveryRepo s)\<rparr>) - {jobId}\<rparr>)"
    if "guarded (s\<lparr>activeJobs := activeJobs s - {jobId}\<rparr>)" for s x now
    using guarded_but_one(2) [OF that] by simp
  show "guarded (s\<lparr>discoveryRepo := addEdge jobId x now (discoveryRepo s)\<rparr>
                  \<lparr>activeJobs := activeJobs (s\<lparr>discoveryRepo :=
                       addEdge jobId x now (discoveryRepo s)\<rparr>) - {jobId}\<rparr>)"
    if "guarded (s\<lparr>activeJobs := activeJobs s - {jobId}\<rparr>)" for s x now
    using guarded_but_one(3) [OF that] by simp
  show "guarded (s\<lparr>activeJobs := activeJobs s - {jobId},
                   cancelledJobs := cancelledJobs s - {jobId}\<rparr>)"
    if "guarded (s\<lparr>activeJobs := activeJobs s - {jobId}\<rparr>)" for s
    using that by (simp add: guarded_def)
qed

lemma reachable_guarded: "reachable w \<Longrightarrow> observed guarded 0 w"
proof (induction rule: reachable.induct)
  case fresh
  show ?case
    by (simp add: observed_def guarded_def new_world_def new_service_def)
next
  case (started w env sched body uuid)
  let ?s = "snd (startDiscovery body uuid (ticks w) (svc w))"
  have "observed guarded 0 (w\<lparr>svc := ?s\<rparr>)"
    using started.IH guarded_startDiscovery [of "svc w" body uuid "ticks w"]
    by (simp add: observed_def)
  from guarded_backgroundTask [OF this, of env sched uuid] started.IH
  show ?case
    by (simp add: postDiscover_def discover_def startDiscovery_result Let_def)
next
  case (cancelled w jobId)
  then show ?case
    using guarded_cancelJob [of "svc w" jobId "ticks w"] by (simp add: observed_def)
qed

text \<open>
  C9, as the code has it. Take any world the service can reach and any state of the
  service in it: the present one, or one that held during an I/O wait of some task. A
  cancel request for a job whose record there is in status \<open>complete\<close> or \<open>error\<close>, or for an
  id without a record, returns \<open>success: false\<close> with a message and leaves the service (every
  job record, every graph, both bookkeeping sets) as it was.
\<close>

theorem cancel_finished_or_unknown_job:
  assumes "reachable w"
    and "s = svc w \<or> s \<in> set (history w)"
    and "getJobStatus jobId s = None \<or>
         (\<exists>job. getJobStatus jobId s = Some job \<and>
                (j_status job = Complete \<or> j_status job = Error))"
  shows "cancelJob jobId now s =
           (\<lparr>success = False, cr_message = ''Job not found or already completed''\<rparr>, s)"
proof -
  have "guarded s"
    using reachable_guarded [OF assms(1)] assms(2) by (auto simp: observed_def)
  then have "jobId \<notin> activeJobs s"
    using assms(3) by (auto simp: guarded_def getJobStatus_def getJob_def)
  then show ?thesis
    by (rule cancelJob_inactive)
qed

theorem cancel_finished_or_unknown_job_witness:
  "reachable unknown_platform \<and>
   map_option j_status (getJobStatus ''job-2'' (svc unknown_platform)) = Some Error \<and>
   cancelJob ''job-2'' 9 (svc unknown_platform) =
     (\<lparr>success = False, cr_message = ''Job not found or already completed''\<rparr>,
      svc unknown_platform) \<and>
   getJobStatus ''job-7'' (svc unknown_platform) = None \<and>
   cancelJob ''job-7'' 9 (svc unknown_platform) =
     (\<lparr>success = False, cr_message = ''Job not found or already completed''\<rparr>,
      svc unknown_platform)"
proof -
  have r: "reachable unknown_platform"
    unfolding unknown_platform_def by (rule reachable.started [OF reachable.fresh])
  have st: "map_option j_status (getJobStatus ''job-2'' (svc unknown_platform)) = Some Error"
    by (simp add: unknown_platform_def postDiscover_def DiscoveryConfigSchema_def run_simps
          sample_config_def)
  have no: "getJobStatus ''job-7'' (svc unknown_platform) = None"
    by (simp add: unknown_platform_def postDiscover_def DiscoveryConfigSchema_def run_simps
          sample_config_def)
  from st have j: "getJobStatus ''job-2'' (svc unknown_platform) = None \<or>
                   (\<exists>job. getJobStatus ''job-2'' (svc unknown_platform) = Some job \<and>
                          (j_status job = Complete \<or> j_status job = Error))"
    by auto
  from no have u: "getJobStatus ''job-7'' (svc unknown_platform) = None \<or>
                   (\<exists>job. getJobStatus ''job-7'' (svc unknown_platform) = Some job \<and>
                          (j_status job = Complete \<or> j_status job = Error))"
    by simp
  have "cancelJob ''job-2'' 9 (svc unknown_platform) =
          (\<lparr>success = False, cr_message = ''Job not found or already completed''\<rparr>,
           svc unknown_platform)"
    using cancel_finished_or_unknown_job [OF r _ j, of 9] by simp
  moreover have "cancelJob ''job-7'' 9 (svc unknown_platform) =
          (\<lparr>success = False, cr_message = ''Job not found or already completed''\<rparr>,
           svc unknown_platform)"
    using cancel_finished_or_unknown_job [OF r _ u, of 9] by simp
  ultimately show ?thesis
    using r st no by simp
qed

text \<open>
  A second cancel request against a job that the first one has already put into the
  terminal status \<open>cancelled\<close>, while its task is still waiting for the subreddit
  descriptions: it reports success and rewrites the record (\<open>updatedAt\<close> moves from 1 to 2).
\<close>

theorem second_cancel_succeeds:
  "map_option j_status (getJobStatus ''job-1'' (history cancelled_early ! 1)) = Some Cancelled \<and>
   map_option updatedAt (getJobStatus ''job-1'' (history cancelled_early ! 1)) = Some 1 \<and>
   success (fst (cancelJob ''job-1'' 2 (history cancelled_early ! 1))) = True \<and>
   map_option updatedAt
     (getJobStatus ''job-1'' (snd (cancelJob ''job-1'' 2 (history cancelled_early ! 1))))
     = Some 2"
  by (simp add: cancelled_early_def run_simps sample_simps)

end
